theory Spec2Isabelle
  imports Main "HOL-Library.Word"
begin

text \<open>
  A model of the AuthGate browser helpers (\<open>src/index.ts\<close>): the cookie read
  \<open>getCookie\<close> and \<open>getCSRFToken\<close>, \<open>logout\<close>, \<open>refreshSession\<close>, \<open>authFetch\<close>
  and \<open>getCurrentUser\<close>. Every function that touches the browser takes the ambient
  state and returns it updated; what a function throws (or what its promise rejects
  with) is the left summand of its result. One call of each function is modelled; the
  steps of a call run in program order.
\<close>

section \<open>JavaScript strings and thrown values\<close>

text \<open>
  A JavaScript string is a sequence of UTF-16 code units. String literals of the
  source are written \<open>js ''...''\<close>.
\<close>

type_synonym jsstring = "16 word list"

definition js :: "string \<Rightarrow> jsstring" where
  "js s = map of_char s"

text \<open>
  What a \<open>throw\<close> (or a rejected promise) carries: the \<open>URIError\<close> of the URI
  built-ins, the \<open>SyntaxError\<close> of an assignment to \<open>window.location.href\<close>, or any
  other value, identified by a number.
\<close>

datatype exn = URIError | SyntaxError | Thrown nat

subsection \<open>\<open>String.prototype.startsWith\<close> and \<open>String.prototype.split\<close>\<close>

definition startsWith :: "jsstring \<Rightarrow> jsstring \<Rightarrow> bool" where
  "startsWith s p = (take (length p) s = p)"

text \<open>
  \<open>split_from sep acc s\<close> scans \<open>s\<close> from the left for occurrences of the
  non-empty separator; \<open>acc\<close> holds the current piece, reversed.
\<close>

fun split_from :: "jsstring \<Rightarrow> jsstring \<Rightarrow> jsstring \<Rightarrow> jsstring list" where
  "split_from sep acc [] = [rev acc]"
| "split_from sep acc (c # s) =
     (if sep \<noteq> [] \<and> startsWith (c # s) sep
      then rev acc # split_from sep [] (drop (length sep - 1) s)
      else split_from sep (c # acc) s)"

definition split_string :: "jsstring \<Rightarrow> jsstring \<Rightarrow> jsstring list" where
  "split_string s sep = (if sep = [] then map (\<lambda>c. [c]) s else split_from sep [] s)"

section \<open>The URI built-ins\<close>

text \<open>
  Modelled from the spec: \<open>decodeURIComponent\<close> and \<open>encodeURIComponent\<close> are
  built-ins of the host language, not code of the repository; the spec calls them
  URL-decoding and URL-encoding. They are written out here as the language standard
  defines them (the abstract operations Decode and Encode with an empty set of
  preserved, respectively extra unescaped, characters): percent escapes carry the
  UTF-8 octets of a code point, and both throw \<open>URIError\<close> on malformed input.
\<close>

definition hexval :: "16 word \<Rightarrow> nat option" where
  "hexval c =
     (let n = unat c in
      if 48 \<le> n \<and> n \<le> 57 then Some (n - 48)
      else if 65 \<le> n \<and> n \<le> 70 then Some (n - 55)
      else if 97 \<le> n \<and> n \<le> 102 then Some (n - 87)
      else None)"

text \<open>The two hexadecimal digits at the front of a string, as an octet, and the rest.\<close>

fun ParseHexOctet :: "jsstring \<Rightarrow> (nat \<times> jsstring) option" where
  "ParseHexOctet (a # b # s) =
     (case hexval a of
        None \<Rightarrow> None
      | Some x \<Rightarrow> (case hexval b of None \<Rightarrow> None | Some y \<Rightarrow> Some (16 * x + y, s)))"
| "ParseHexOctet _ = None"

text \<open>\<open>continuation n s\<close> reads \<open>n\<close> further escapes \<open>%XX\<close> from the front of \<open>s\<close>.\<close>

fun continuation :: "nat \<Rightarrow> jsstring \<Rightarrow> (nat list \<times> jsstring) option" where
  "continuation 0 s = Some ([], s)"
| "continuation (Suc n) [] = None"
| "continuation (Suc n) (c # s) =
     (if c = 37 then
        (case ParseHexOctet s of
           None \<Rightarrow> None
         | Some (b, s1) \<Rightarrow>
             (case continuation n s1 of
                None \<Rightarrow> None
              | Some (bs, s2) \<Rightarrow> Some (b # bs, s2)))
      else None)"

text \<open>The number of leading 1 bits of an octet.\<close>

definition leading_ones :: "nat \<Rightarrow> nat" where
  "leading_ones b =
     (if b < 128 then 0 else if b < 192 then 1 else if b < 224 then 2
      else if b < 240 then 3 else if b < 248 then 4 else 5)"

definition is_cont :: "nat \<Rightarrow> bool" where
  "is_cont b = (128 \<le> b \<and> b \<le> 191)"

text \<open>
  The code point of a multi-octet UTF-8 sequence, when the sequence is valid: the
  continuation octets are in range, the encoding is the shortest one, and the code
  point is neither a surrogate nor beyond U+10FFFF.
\<close>

fun utf8_decode :: "nat list \<Rightarrow> nat option" where
  "utf8_decode [b1, b2] =
     (let cp = (b1 - 192) * 64 + (b2 - 128) in
      if is_cont b2 \<and> 128 \<le> cp then Some cp else None)"
| "utf8_decode [b1, b2, b3] =
     (let cp = (b1 - 224) * 4096 + (b2 - 128) * 64 + (b3 - 128) in
      if is_cont b2 \<and> is_cont b3 \<and> 2048 \<le> cp \<and> (cp < 55296 \<or> 57343 < cp)
      then Some cp else None)"
| "utf8_decode [b1, b2, b3, b4] =
     (let cp = (b1 - 240) * 262144 + (b2 - 128) * 4096 + (b3 - 128) * 64 + (b4 - 128) in
      if is_cont b2 \<and> is_cont b3 \<and> is_cont b4 \<and> 65536 \<le> cp \<and> cp \<le> 1114111
      then Some cp else None)"
| "utf8_decode _ = None"

definition UTF16EncodeCodePoint :: "nat \<Rightarrow> jsstring" where
  "UTF16EncodeCodePoint cp =
     (if cp \<le> 65535 then [of_nat cp]
      else [of_nat ((cp - 65536) div 1024 + 55296), of_nat ((cp - 65536) mod 1024 + 56320)])"

text \<open>Prepending to the result of the rest of a scan, unless the rest threw.\<close>

definition prepend :: "jsstring \<Rightarrow> exn + jsstring \<Rightarrow> exn + jsstring" where
  "prepend p r = (case r of Inl e \<Rightarrow> Inl e | Inr t \<Rightarrow> Inr (p @ t))"

lemma ParseHexOctet_shorter:
  "ParseHexOctet s = Some (b, r) \<Longrightarrow> length r < length s"
  by (cases s rule: ParseHexOctet.cases) (auto split: option.splits)

lemma continuation_shorter:
  "continuation n s = Some (bs, r) \<Longrightarrow> length r \<le> length s"
proof (induction n arbitrary: s bs r)
  case 0
  then show ?case by simp
next
  case (Suc n)
  show ?case
  proof (cases s)
    case Nil
    with Suc.prems show ?thesis by simp
  next
    case (Cons c s0)
    with Suc.prems obtain b s1 bs' where
      p: "ParseHexOctet s0 = Some (b, s1)" and k: "continuation n s1 = Some (bs', r)"
      by (auto split: if_splits option.splits)
    from Suc.IH[OF k] ParseHexOctet_shorter[OF p] Cons show ?thesis by simp
  qed
qed

function decodeURIComponent :: "jsstring \<Rightarrow> exn + jsstring" where
  "decodeURIComponent [] = Inr []"
| "decodeURIComponent (c # s) =
     (if c = 37 then
        (case ParseHexOctet s of
           None \<Rightarrow> Inl URIError
         | Some (b, s1) \<Rightarrow>
             (if leading_ones b = 0 then prepend [of_nat b] (decodeURIComponent s1)
              else if leading_ones b = 1 \<or> 4 < leading_ones b then Inl URIError
              else
                (case continuation (leading_ones b - 1) s1 of
                   None \<Rightarrow> Inl URIError
                 | Some (bs, s2) \<Rightarrow>
                     (case utf8_decode (b # bs) of
                        None \<Rightarrow> Inl URIError
                      | Some cp \<Rightarrow> prepend (UTF16EncodeCodePoint cp) (decodeURIComponent s2)))))
      else prepend [c] (decodeURIComponent s))"
  by pat_completeness auto
termination
proof (relation "measure length")
  show "wf (measure length)" by simp
next
  fix c :: "16 word" and s x2 x y
  assume "c = 37" "ParseHexOctet s = Some x2" "(x, y) = x2"
  then show "(y, c # s) \<in> measure length"
    using ParseHexOctet_shorter[of s x y] by simp
next
  fix c :: "16 word" and s x2 x y x2a xa ya x2b
  assume "ParseHexOctet s = Some x2" "(x, y) = x2"
    "continuation (leading_ones x - 1) y = Some x2a" "(xa, ya) = x2a"
  then show "(ya, c # s) \<in> measure length"
    using ParseHexOctet_shorter[of s x y] continuation_shorter[of "leading_ones x - 1" y xa ya]
    by simp
next
  fix c :: "16 word" and s
  show "(s, c # s) \<in> measure length" by simp
qed

text \<open>The characters \<open>encodeURIComponent\<close> leaves as they are: \<open>A-Z a-z 0-9 - _ . ! ~ * ' ( )\<close>.\<close>

definition unescaped :: "16 word \<Rightarrow> bool" where
  "unescaped c =
     (let n = unat c in
      (65 \<le> n \<and> n \<le> 90) \<or> (97 \<le> n \<and> n \<le> 122) \<or> (48 \<le> n \<and> n \<le> 57)
      \<or> n = 45 \<or> n = 95 \<or> n = 46 \<or> n = 33 \<or> n = 126 \<or> n = 42 \<or> n = 39 \<or> n = 40 \<or> n = 41)"

definition is_lead :: "16 word \<Rightarrow> bool" where
  "is_lead c = (55296 \<le> unat c \<and> unat c \<le> 56319)"

definition is_trail :: "16 word \<Rightarrow> bool" where
  "is_trail c = (56320 \<le> unat c \<and> unat c \<le> 57343)"

definition UTF16SurrogatePairToCodePoint :: "16 word \<Rightarrow> 16 word \<Rightarrow> nat" where
  "UTF16SurrogatePairToCodePoint l t = (unat l - 55296) * 1024 + (unat t - 56320) + 65536"

definition utf8_encode :: "nat \<Rightarrow> nat list" where
  "utf8_encode cp =
     (if cp < 128 then [cp]
      else if cp < 2048 then [192 + cp div 64, 128 + cp mod 64]
      else if cp < 65536 then [224 + cp div 4096, 128 + cp div 64 mod 64, 128 + cp mod 64]
      else [240 + cp div 262144, 128 + cp div 4096 mod 64, 128 + cp div 64 mod 64,
            128 + cp mod 64])"

definition hexdigit :: "nat \<Rightarrow> 16 word" where
  "hexdigit n = (if n < 10 then of_nat (48 + n) else of_nat (55 + n))"

definition escape_octet :: "nat \<Rightarrow> jsstring" where
  "escape_octet b = [37, hexdigit (b div 16), hexdigit (b mod 16)]"

fun encodeURIComponent :: "jsstring \<Rightarrow> exn + jsstring" where
  "encodeURIComponent [] = Inr []"
| "encodeURIComponent (c # s) =
     (if unescaped c then prepend [c] (encodeURIComponent s)
      else if is_trail c then Inl URIError
      else if is_lead c then
        (case s of
           [] \<Rightarrow> Inl URIError
         | d # s1 \<Rightarrow>
             (if is_trail d
              then prepend (concat (map escape_octet (utf8_encode (UTF16SurrogatePairToCodePoint c d))))
                     (encodeURIComponent s1)
              else Inl URIError))
      else prepend (concat (map escape_octet (utf8_encode (unat c)))) (encodeURIComponent s))"

section \<open>The browser environment\<close>

text \<open>
  What \<open>res.json()\<close> can produce: a value of the JSON data model. The code never looks
  inside a number, which is kept here as an integer.
\<close>

datatype js_value =
    JNull
  | JBool bool
  | JNumber int
  | JString jsstring
  | JArray "js_value list"
  | JObject "(jsstring \<times> js_value) list"

text \<open>
  A \<open>Response\<close> as the code reads it: its \<open>status\<close>, and what \<open>json()\<close> yields,
  the parsed body or the exception of a body that does not parse.
\<close>

record Response =
  status :: nat
  json :: "exn + js_value"

text \<open>
  Modelled from the spec: the declaration of the platform type \<open>Response\<close> is not
  part of the repository; the spec gives the success criterion of every call as a
  2xx status, which is what the platform's \<open>ok\<close> getter reports.
\<close>

definition ok :: "Response \<Rightarrow> bool" where
  "ok res = (200 \<le> status res \<and> status res \<le> 299)"

text \<open>
  The first argument of \<open>fetch\<close> (\<open>RequestInfo | URL\<close>): a URL string, a
  \<open>Request\<close> object or a \<open>URL\<close> object; the code passes it on untouched.
\<close>

datatype request_info = UrlString jsstring | RequestObject nat | URLObject jsstring

text \<open>
  The options of \<open>fetch\<close> (\<open>RequestInit\<close>); every member is optional, and
  \<open>other\<close> holds the members the code never names.
\<close>

record RequestInit =
  req_method :: "jsstring option"
  headers :: "(jsstring \<times> jsstring) list option"
  body :: "jsstring option"
  credentials :: "jsstring option"
  other :: "(jsstring \<times> jsstring) list"

type_synonym request = "request_info \<times> RequestInit"

text \<open>
  What one call of \<open>fetch\<close> does: it resolves to a response or rejects with an
  exception, and the browser may store a new cookie string on the way.
\<close>

record reply =
  outcome :: "exn + Response"
  new_cookie :: "jsstring option"

text \<open>
  The ambient state: \<open>document.cookie\<close>; the values that \<open>window.location.href\<close> has
  accepted so far (each accepted assignment is a navigation); the calls of \<open>fetch\<close> so
  far; the network, which answers a request knowing the calls before it; and what an
  assignment to \<open>window.location.href\<close> throws, if anything: the setter of the
  platform throws when the value does not parse as a URL, and no navigation occurs
  then.
\<close>

record world =
  cookie :: jsstring
  navigations :: "jsstring list"
  calls :: "request list"
  network :: "request list \<Rightarrow> request \<Rightarrow> reply"
  href_setter :: "jsstring \<Rightarrow> exn option"

definition fetch :: "request_info \<Rightarrow> RequestInit \<Rightarrow> world \<Rightarrow> (exn + Response) \<times> world" where
  "fetch input init w =
     (let r = network w (calls w) (input, init) in
      (outcome r,
       w\<lparr>calls := calls w @ [(input, init)],
         cookie := (case new_cookie r of None \<Rightarrow> cookie w | Some c \<Rightarrow> c)\<rparr>))"

section \<open>Reading the CSRF cookie\<close>

text \<open>
  \<open>match.split("=")[1]\<close>: the second piece; a missing element would be
  \<open>undefined\<close>, which \<open>decodeURIComponent\<close> reads as the string "undefined".
\<close>

definition second_piece :: "jsstring list \<Rightarrow> jsstring" where
  "second_piece ps = (case ps of _ # v # _ \<Rightarrow> v | _ \<Rightarrow> js ''undefined'')"

definition getCookie :: "jsstring \<Rightarrow> world \<Rightarrow> exn + jsstring option" where
  "getCookie name w =
     (case List.find (\<lambda>c. startsWith c (name @ js ''='')) (split_string (cookie w) (js ''; '')) of
        None \<Rightarrow> Inr None
      | Some m \<Rightarrow>
          (if m = [] then Inr None
           else (case decodeURIComponent (second_piece (split_string m (js ''=''))) of
                   Inl e \<Rightarrow> Inl e
                 | Inr v \<Rightarrow> Inr (Some v))))"

definition getCSRFToken :: "world \<Rightarrow> exn + jsstring option" where
  "getCSRFToken w = getCookie (js ''authgate_csrf'') w"

text \<open>\<open>!csrf\<close> for a value of type \<open>string | null\<close>: null and the empty string are falsy.\<close>

definition falsy :: "jsstring option \<Rightarrow> bool" where
  "falsy v = (case v of None \<Rightarrow> True | Some s \<Rightarrow> s = [])"

section \<open>logout\<close>

datatype reason = missing_csrf | request_failed | unauthorized

datatype LogoutResult = Ok | Failed reason

record logout_opts =
  redirectTo :: "jsstring option"

definition logout_request :: "jsstring \<Rightarrow> request" where
  "logout_request csrf =
     (UrlString (js ''/auth/logout''),
      \<lparr>req_method = Some (js ''POST''),
       headers = Some [(js ''X-CSRF-Token'', csrf)],
       body = None,
       credentials = Some (js ''include''),
       other = []\<rparr>)"

text \<open>
  \<open>opts?.redirectTo\<close>. The assignment of it to \<open>window.location.href\<close> stands after
  the \<open>try\<close>, so what the setter throws leaves \<open>logout\<close> uncaught.
\<close>

definition redirect_of :: "logout_opts option \<Rightarrow> jsstring option" where
  "redirect_of opts = (case opts of None \<Rightarrow> None | Some p \<Rightarrow> redirectTo p)"

definition logout :: "logout_opts option \<Rightarrow> world \<Rightarrow> (exn + LogoutResult) \<times> world" where
  "logout opts w =
     (case getCSRFToken w of
        Inl e \<Rightarrow> (Inl e, w)
      | Inr csrf \<Rightarrow>
          (if falsy csrf then (Inr (Failed missing_csrf), w)
           else
             (case fetch (fst (logout_request (the csrf))) (snd (logout_request (the csrf))) w of
                (Inl e, w1) \<Rightarrow> (Inr (Failed request_failed), w1)
              | (Inr res, w1) \<Rightarrow>
                  (if \<not> ok res
                   then (Inr (Failed (if status res = 401 \<or> status res = 403
                                      then unauthorized else request_failed)), w1)
                   else if falsy (redirect_of opts) then (Inr Ok, w1)
                   else
                     (case href_setter w1 (the (redirect_of opts)) of
                        Some e \<Rightarrow> (Inl e, w1)
                      | None \<Rightarrow>
                          (Inr Ok,
                           w1\<lparr>navigations := navigations w1 @ [the (redirect_of opts)]\<rparr>))))))"

section \<open>refreshSession and authFetch\<close>

definition refresh_request :: "jsstring \<Rightarrow> jsstring \<Rightarrow> request" where
  "refresh_request encoded csrf =
     (UrlString (js ''/auth/refresh?audience='' @ encoded),
      \<lparr>req_method = Some (js ''POST''),
       headers = Some [(js ''X-CSRF-Token'', csrf)],
       body = None,
       credentials = Some (js ''include''),
       other = []\<rparr>)"

text \<open>
  The parameter \<open>audience\<close> has the default "app". Encoding the audience and the call
  of \<open>fetch\<close> are inside the \<open>try\<close>; reading the CSRF cookie is before it.
\<close>

definition refreshSession :: "jsstring option \<Rightarrow> world \<Rightarrow> (exn + bool) \<times> world" where
  "refreshSession audience w =
     (case getCSRFToken w of
        Inl e \<Rightarrow> (Inl e, w)
      | Inr csrf \<Rightarrow>
          (if falsy csrf then (Inr False, w)
           else
             (case encodeURIComponent (case audience of None \<Rightarrow> js ''app'' | Some a \<Rightarrow> a) of
                Inl e \<Rightarrow> (Inr False, w)
              | Inr encoded \<Rightarrow>
                  (case fetch (fst (refresh_request encoded (the csrf)))
                          (snd (refresh_request encoded (the csrf))) w of
                     (Inl e, w1) \<Rightarrow> (Inr False, w1)
                   | (Inr res, w1) \<Rightarrow> (Inr (ok res), w1)))))"

definition withCredentials :: "RequestInit \<Rightarrow> RequestInit" where
  "withCredentials init = init\<lparr>credentials := Some (js ''include'')\<rparr>"

text \<open>The empty options object, the default of \<open>init\<close>.\<close>

definition empty_init :: RequestInit where
  "empty_init = \<lparr>req_method = None, headers = None, body = None, credentials = None, other = []\<rparr>"

record authFetch_opts =
  audience :: "jsstring option"

text \<open>\<open>opts?.audience ?? "app"\<close>\<close>

definition audience_or_app :: "authFetch_opts option \<Rightarrow> jsstring" where
  "audience_or_app opts =
     (case opts of
        None \<Rightarrow> js ''app''
      | Some p \<Rightarrow> (case audience p of None \<Rightarrow> js ''app'' | Some a \<Rightarrow> a))"

text \<open>The parameter \<open>init\<close> with its default applied.\<close>

definition init_or_empty :: "RequestInit option \<Rightarrow> RequestInit" where
  "init_or_empty init = (case init of None \<Rightarrow> empty_init | Some i \<Rightarrow> i)"

definition authFetch ::
  "request_info \<Rightarrow> RequestInit option \<Rightarrow> authFetch_opts option \<Rightarrow> world
     \<Rightarrow> (exn + Response) \<times> world" where
  "authFetch input init opts w =
     (let init1 = init_or_empty init in
      case fetch input (withCredentials init1) w of
        (Inl e, w1) \<Rightarrow> (Inl e, w1)
      | (Inr res, w1) \<Rightarrow>
          (if status res \<noteq> 401 then (Inr res, w1)
           else
             (case refreshSession (Some (audience_or_app opts)) w1 of
                (Inl e, w2) \<Rightarrow> (Inl e, w2)
              | (Inr refreshed, w2) \<Rightarrow>
                  (if \<not> refreshed then (Inr res, w2)
                   else fetch input (withCredentials init1) w2))))"

section \<open>getCurrentUser\<close>

text \<open>
  The result has the static type \<open>CurrentUser | null\<close>; the cast \<open>as CurrentUser\<close>
  checks nothing, so what is returned is whatever value the body parses to.
\<close>

text \<open>The call of \<open>authFetch\<close> that \<open>getCurrentUser\<close> makes.\<close>

definition identity_call :: "authFetch_opts option \<Rightarrow> world \<Rightarrow> (exn + Response) \<times> world" where
  "identity_call opts w =
     authFetch (UrlString (js ''/auth/user''))
       (Some (empty_init\<lparr>req_method := Some (js ''GET'')\<rparr>))
       (Some \<lparr>audience = Some (audience_or_app opts)\<rparr>) w"

definition getCurrentUser :: "authFetch_opts option \<Rightarrow> world \<Rightarrow> (exn + js_value) \<times> world" where
  "getCurrentUser opts w =
     (case identity_call opts w of
        (Inl e, w1) \<Rightarrow> (Inr JNull, w1)
      | (Inr res, w1) \<Rightarrow>
          (if \<not> ok res then (Inr JNull, w1)
           else (case json res of
                   Inl e \<Rightarrow> (Inr JNull, w1)
                 | Inr v \<Rightarrow> (Inr v, w1))))"

section \<open>The cookie read as the specification words it\<close>

text \<open>
  The entries of the cookie string are separated by "; "; the key of an entry is what
  stands before its first "=", its value what follows that "=". The read returns the
  URL-decoded value of the first entry whose key is the name.
\<close>

definition entry_key :: "jsstring \<Rightarrow> jsstring" where
  "entry_key e = takeWhile (\<lambda>c. c \<noteq> 61) e"

definition entry_value :: "jsstring \<Rightarrow> jsstring" where
  "entry_value e = drop 1 (dropWhile (\<lambda>c. c \<noteq> 61) e)"

definition spec_getCookie :: "jsstring \<Rightarrow> world \<Rightarrow> exn + jsstring option" where
  "spec_getCookie name w =
     (case List.find (\<lambda>e. 61 \<in> set e \<and> entry_key e = name) (split_string (cookie w) (js ''; '')) of
        None \<Rightarrow> Inr None
      | Some e \<Rightarrow>
          (case decodeURIComponent (entry_value e) of
             Inl x \<Rightarrow> Inl x
           | Inr v \<Rightarrow> Inr (Some v)))"

section \<open>Example environments\<close>

text \<open>
  A freshly loaded page with cookie string \<open>c\<close> whose network answers the \<open>n\<close>-th call
  of \<open>fetch\<close> (counted from 0) with \<open>f n\<close> and leaves the cookies alone, and whose
  location refuses the value "http://" (a scheme without a host does not parse) and
  accepts every other value.
\<close>

definition answering :: "(nat \<Rightarrow> exn + Response) \<Rightarrow> jsstring \<Rightarrow> world" where
  "answering f c =
     \<lparr>cookie = c, navigations = [], calls = [],
      network = (\<lambda>h q. \<lparr>outcome = f (length h), new_cookie = None\<rparr>),
      href_setter = (\<lambda>u. if u = js ''http://'' then Some SyntaxError else None)\<rparr>"

text \<open>A response with the given status whose body is the JSON number \<open>n\<close>.\<close>

definition numbered :: "nat \<Rightarrow> nat \<Rightarrow> Response" where
  "numbered st n = \<lparr>status = st, json = Inr (JNumber (int n))\<rparr>"

text \<open>
  Pages used as concrete inputs: without any cookie and every call answered 401; with
  the CSRF cookie "abc" and every call answered 200, every call answered 401, or only
  the second call (the refresh) answered 200; and with a CSRF cookie whose value is a
  lone percent sign.
\<close>

definition api_data :: request_info where
  "api_data = UrlString (js ''/api/data'')"

definition signed_out :: world where
  "signed_out = answering (\<lambda>n. Inr (numbered 401 n)) (js '''')"

definition healthy :: world where
  "healthy = answering (\<lambda>n. Inr (numbered 200 n)) (js ''authgate_csrf=abc'')"

definition rejected :: world where
  "rejected = answering (\<lambda>n. Inr (numbered 401 n)) (js ''authgate_csrf=abc'')"

definition expired :: world where
  "expired = answering (\<lambda>n. Inr (numbered (if n = 1 then 200 else 401) n)) (js ''authgate_csrf=abc'')"

definition malformed :: world where
  "malformed = answering (\<lambda>n. Inr (numbered 401 n)) (js ''authgate_csrf=%'')"

definition admin_users :: request_info where
  "admin_users = UrlString (js ''/admin/api/users'')"

text \<open>Caller options that name every member, with credentials the code must override.\<close>

definition put_init :: RequestInit where
  "put_init =
     \<lparr>req_method = Some (js ''PUT''),
      headers = Some [(js ''Content-Type'', js ''application/json'')],
      body = Some (js ''{}''),
      credentials = Some (js ''omit''),
      other = [(js ''cache'', js ''no-store'')]\<rparr>"

text \<open>
  Pages for the identity lookup, all with the CSRF cookie "abc": every call rejects;
  every call is answered 500; every call is answered 200 with a body that does not
  parse; with the body \<open>null\<close>; with an object that has only an \<open>id\<close>.
\<close>

definition offline :: world where
  "offline = answering (\<lambda>n. Inl (Thrown 0)) (js ''authgate_csrf=abc'')"

definition server_error :: world where
  "server_error = answering (\<lambda>n. Inr (numbered 500 n)) (js ''authgate_csrf=abc'')"

definition garbled :: world where
  "garbled = answering (\<lambda>n. Inr \<lparr>status = 200, json = Inl (Thrown 1)\<rparr>) (js ''authgate_csrf=abc'')"

definition null_body :: world where
  "null_body = answering (\<lambda>n. Inr \<lparr>status = 200, json = Inr JNull\<rparr>) (js ''authgate_csrf=abc'')"

definition only_id :: world where
  "only_id = answering (\<lambda>n. Inr \<lparr>status = 200, json = Inr (JObject [(js ''id'', JString (js ''u1''))])\<rparr>)
               (js ''authgate_csrf=abc'')"

section \<open>Facts about the environment\<close>

lemma fetch_effect:
  "fetch input init w = (r, w1) \<Longrightarrow>
     outcome (network w (calls w) (input, init)) = r \<and>
     calls w1 = calls w @ [(input, init)] \<and>
     navigations w1 = navigations w \<and>
     network w1 = network w \<and>
     href_setter w1 = href_setter w"
  by (auto simp: fetch_def Let_def)

lemma falsy_cases: "falsy v \<longleftrightarrow> v = None \<or> v = Some []"
  by (cases v) (auto simp: falsy_def)

lemma pair_of_fst: "fst p = a \<Longrightarrow> p = (a, snd p)"
  by (cases p) simp

text \<open>Unfolding sets for evaluating the model on the concrete pages.\<close>

lemmas cookie_eval =
  getCSRFToken_def getCookie_def js_def split_string_def startsWith_def second_piece_def
  hexval_def falsy_def prepend_def

lemmas world_eval =
  answering_def fetch_def numbered_def ok_def logout_request_def refresh_request_def
  withCredentials_def empty_init_def init_or_empty_def audience_or_app_def redirect_of_def
  api_data_def signed_out_def healthy_def rejected_def expired_def malformed_def admin_users_def
  put_init_def

lemmas user_eval = offline_def server_error_def garbled_def null_body_def only_id_def

lemmas call_eval = identity_call_def authFetch_def refreshSession_def

lemmas encode_eval =
  unescaped_def is_lead_def is_trail_def utf8_encode_def escape_octet_def hexdigit_def

section \<open>Properties of the URI built-ins\<close>

text \<open>Escapes are read back as the octets they were written from.\<close>

lemma unat_code_unit: "k < 65536 \<Longrightarrow> unat (of_nat k :: 16 word) = k"
  by (simp add: unat_of_nat)

lemma hexval_hexdigit: "n < 16 \<Longrightarrow> hexval (hexdigit n) = Some n"
  by (simp add: hexval_def hexdigit_def Let_def unat_code_unit del: of_nat_add)

lemma ParseHexOctet_escape:
  "b < 256 \<Longrightarrow> ParseHexOctet (hexdigit (b div 16) # hexdigit (b mod 16) # s) = Some (b, s)"
  by (simp add: hexval_hexdigit)

lemma continuation_escapes:
  "\<forall>b\<in>set bs. b < 256 \<Longrightarrow>
     continuation (length bs) (concat (map escape_octet bs) @ s) = Some (bs, s)"
  by (induction bs) (simp_all add: escape_octet_def ParseHexOctet_escape del: ParseHexOctet.simps)

lemma decode_ascii_escape:
  "b < 128 \<Longrightarrow>
     decodeURIComponent (escape_octet b @ s) = prepend [of_nat b] (decodeURIComponent s)"
  by (simp add: escape_octet_def ParseHexOctet_escape leading_ones_def del: ParseHexOctet.simps)

lemma decode_multi_escape:
  assumes "leading_ones b = Suc (length bs)" "bs \<noteq> []" "length bs \<le> 3"
    "b < 256" "\<forall>x\<in>set bs. x < 256" "utf8_decode (b # bs) = Some cp"
  shows "decodeURIComponent (concat (map escape_octet (b # bs)) @ s)
           = prepend (UTF16EncodeCodePoint cp) (decodeURIComponent s)"
  using assms
  by (simp add: escape_octet_def[of b] ParseHexOctet_escape continuation_escapes del: ParseHexOctet.simps)

text \<open>The UTF-8 octets of a code point decode to the code point.\<close>

lemma sextets_two: "(cp::nat) div 4096 * 4096 + cp div 64 mod 64 * 64 + cp mod 64 = cp"
proof -
  have d: "cp div 4096 = cp div 64 div 64" by (simp add: div_mult2_eq[symmetric])
  have g: "a * 4096 + b * 64 = (a * 64 + b) * 64" for a b :: nat by simp
  have "cp div 64 div 64 * 4096 + cp div 64 mod 64 * 64
          = (cp div 64 div 64 * 64 + cp div 64 mod 64) * 64"
    by (rule g)
  also have "\<dots> = cp div 64 * 64" by (simp only: div_mult_mod_eq)
  finally have "cp div 64 div 64 * 4096 + cp div 64 mod 64 * 64 + cp mod 64
          = cp div 64 * 64 + cp mod 64" by simp
  also have "\<dots> = cp" by (rule div_mult_mod_eq)
  finally show ?thesis by (simp only: d)
qed

lemma sextets_three:
  "(cp::nat) div 262144 * 262144 + cp div 4096 mod 64 * 4096 + cp div 64 mod 64 * 64 + cp mod 64 = cp"
proof -
  have d1: "cp div 4096 = cp div 64 div 64" by (simp add: div_mult2_eq[symmetric])
  have d2: "cp div 262144 = cp div 64 div 4096" by (simp add: div_mult2_eq[symmetric])
  have g: "a * 262144 + b * 4096 + c * 64 = (a * 4096 + b * 64 + c) * 64" for a b c :: nat
    by simp
  have "cp div 64 div 4096 * 262144 + cp div 64 div 64 mod 64 * 4096 + cp div 64 mod 64 * 64
          = (cp div 64 div 4096 * 4096 + cp div 64 div 64 mod 64 * 64 + cp div 64 mod 64) * 64"
    by (rule g)
  also have "\<dots> = cp div 64 * 64" by (simp only: sextets_two)
  finally have "cp div 64 div 4096 * 262144 + cp div 64 div 64 mod 64 * 4096 + cp div 64 mod 64 * 64
          + cp mod 64 = cp div 64 * 64 + cp mod 64" by simp
  also have "\<dots> = cp" by (rule div_mult_mod_eq)
  finally show ?thesis by (simp only: d1 d2)
qed

lemma mod_64_le: "(n::nat) mod 64 \<le> 63"
proof -
  have "n mod 64 < 64" by simp
  then show ?thesis by linarith
qed

lemma mod_64_octet: "(n::nat) mod 64 < 128"
  by (rule less_trans[OF mod_less_divisor]) simp_all

lemma utf8_two:
  assumes "128 \<le> cp" "cp < 2048"
  shows "utf8_encode cp = [192 + cp div 64, 128 + cp mod 64]"
    and "leading_ones (192 + cp div 64) = 2"
    and "utf8_decode [192 + cp div 64, 128 + cp mod 64] = Some cp"
  using assms by (simp_all add: utf8_encode_def leading_ones_def is_cont_def)

lemma utf8_three:
  assumes "2048 \<le> cp" "cp < 65536" "cp < 55296 \<or> 57343 < cp"
  shows "utf8_encode cp = [224 + cp div 4096, 128 + cp div 64 mod 64, 128 + cp mod 64]"
    and "leading_ones (224 + cp div 4096) = 3"
    and "utf8_decode [224 + cp div 4096, 128 + cp div 64 mod 64, 128 + cp mod 64] = Some cp"
proof -
  from assms show "utf8_encode cp = [224 + cp div 4096, 128 + cp div 64 mod 64, 128 + cp mod 64]"
    by (simp add: utf8_encode_def)
  from assms show "leading_ones (224 + cp div 4096) = 3"
    by (simp add: leading_ones_def)
  have "cp div 4096 * 4096 + cp div 64 mod 64 * 64 + cp mod 64 = cp"
    by (rule sextets_two)
  with assms show "utf8_decode [224 + cp div 4096, 128 + cp div 64 mod 64, 128 + cp mod 64] = Some cp"
    by (simp add: is_cont_def mod_64_le)
qed

lemma utf8_four:
  assumes "65536 \<le> cp" "cp < 1114112"
  shows "utf8_encode cp =
           [240 + cp div 262144, 128 + cp div 4096 mod 64, 128 + cp div 64 mod 64, 128 + cp mod 64]"
    and "leading_ones (240 + cp div 262144) = 4"
    and "utf8_decode
           [240 + cp div 262144, 128 + cp div 4096 mod 64, 128 + cp div 64 mod 64, 128 + cp mod 64]
         = Some cp"
proof -
  from assms show "utf8_encode cp =
           [240 + cp div 262144, 128 + cp div 4096 mod 64, 128 + cp div 64 mod 64, 128 + cp mod 64]"
    by (simp add: utf8_encode_def)
  from assms show "leading_ones (240 + cp div 262144) = 4"
    by (simp add: leading_ones_def)
  have "cp div 262144 * 262144 + cp div 4096 mod 64 * 4096 + cp div 64 mod 64 * 64 + cp mod 64 = cp"
    by (rule sextets_three)
  with assms show "utf8_decode
           [240 + cp div 262144, 128 + cp div 4096 mod 64, 128 + cp div 64 mod 64, 128 + cp mod 64]
         = Some cp"
    by (simp add: is_cont_def mod_64_le)
qed

lemma utf8_encode_octets: "cp < 1114112 \<Longrightarrow> \<forall>b\<in>set (utf8_encode cp). b < 256"
  by (simp add: utf8_encode_def mod_64_octet div_less_iff_less_mult)

lemma decode_code_point:
  assumes "cp < 1114112" "cp < 55296 \<or> 57343 < cp"
  shows "decodeURIComponent (concat (map escape_octet (utf8_encode cp)) @ s)
           = prepend (UTF16EncodeCodePoint cp) (decodeURIComponent s)"
proof -
  consider "cp < 128" | "128 \<le> cp" "cp < 2048" | "2048 \<le> cp" "cp < 65536" | "65536 \<le> cp"
    by linarith
  then show ?thesis
  proof cases
    case 1
    then have "utf8_encode cp = [cp]" by (simp add: utf8_encode_def)
    with 1 decode_ascii_escape[of cp s] show ?thesis
      by (simp add: UTF16EncodeCodePoint_def)
  next
    case 2
    note u = utf8_two[OF 2]
    have "decodeURIComponent (concat (map escape_octet ((192 + cp div 64) # [128 + cp mod 64])) @ s)
           = prepend (UTF16EncodeCodePoint cp) (decodeURIComponent s)"
    proof (rule decode_multi_escape)
      show "leading_ones (192 + cp div 64) = Suc (length [128 + cp mod 64])"
        using u(2) by simp
      show "192 + cp div 64 < 256" using 2 by simp
      show "\<forall>x\<in>set [128 + cp mod 64]. x < 256" using mod_64_octet[of cp] by simp
      show "utf8_decode [192 + cp div 64, 128 + cp mod 64] = Some cp" by (rule u(3))
    qed simp_all
    then show ?thesis by (simp only: u(1))
  next
    case 3
    note u = utf8_three[OF 3 assms(2)]
    have "decodeURIComponent (concat (map escape_octet
              ((224 + cp div 4096) # [128 + cp div 64 mod 64, 128 + cp mod 64])) @ s)
           = prepend (UTF16EncodeCodePoint cp) (decodeURIComponent s)"
    proof (rule decode_multi_escape)
      show "leading_ones (224 + cp div 4096) = Suc (length [128 + cp div 64 mod 64, 128 + cp mod 64])"
        using u(2) by simp
      show "224 + cp div 4096 < 256" using 3 by simp
      show "\<forall>x\<in>set [128 + cp div 64 mod 64, 128 + cp mod 64]. x < 256"
        using mod_64_octet[of cp] mod_64_octet[of "cp div 64"] by simp
      show "utf8_decode [224 + cp div 4096, 128 + cp div 64 mod 64, 128 + cp mod 64] = Some cp"
        by (rule u(3))
    qed simp_all
    then show ?thesis by (simp only: u(1))
  next
    case 4
    note u = utf8_four[OF 4 assms(1)]
    have "decodeURIComponent (concat (map escape_octet
              ((240 + cp div 262144)
                # [128 + cp div 4096 mod 64, 128 + cp div 64 mod 64, 128 + cp mod 64])) @ s)
           = prepend (UTF16EncodeCodePoint cp) (decodeURIComponent s)"
    proof (rule decode_multi_escape)
      show "leading_ones (240 + cp div 262144)
              = Suc (length [128 + cp div 4096 mod 64, 128 + cp div 64 mod 64, 128 + cp mod 64])"
        using u(2) by simp
      show "240 + cp div 262144 < 256" using assms(1) by simp
      show "\<forall>x\<in>set [128 + cp div 4096 mod 64, 128 + cp div 64 mod 64, 128 + cp mod 64]. x < 256"
        using mod_64_octet[of cp] mod_64_octet[of "cp div 64"] mod_64_octet[of "cp div 4096"]
        by simp
      show "utf8_decode
              [240 + cp div 262144, 128 + cp div 4096 mod 64, 128 + cp div 64 mod 64, 128 + cp mod 64]
            = Some cp"
        by (rule u(3))
    qed simp_all
    then show ?thesis by (simp only: u(1))
  qed
qed

lemma prepend_Inr: "prepend p r = Inr e \<longleftrightarrow> (\<exists>t. r = Inr t \<and> e = p @ t)"
  by (cases r) (auto simp: prepend_def)

lemma unescaped_not_percent: "unescaped c \<Longrightarrow> c \<noteq> 37"
  by (auto simp: unescaped_def Let_def)

lemma surrogate_pair_roundtrip:
  assumes "is_lead l" "is_trail t"
  shows "UTF16SurrogatePairToCodePoint l t < 1114112"
    and "57343 < UTF16SurrogatePairToCodePoint l t"
    and "UTF16EncodeCodePoint (UTF16SurrogatePairToCodePoint l t) = [l, t]"
proof -
  let ?a = "unat l - 55296" and ?b = "unat t - 56320"
  from assms have r: "55296 \<le> unat l" "unat l \<le> 56319" "56320 \<le> unat t" "unat t \<le> 57343"
    by (simp_all add: is_lead_def is_trail_def)
  from r have a: "?a < 1024" and b: "?b < 1024" by linarith+
  from r have l: "?a + 55296 = unat l" and t: "?b + 56320 = unat t" by linarith+
  have cp: "UTF16SurrogatePairToCodePoint l t = ?a * 1024 + ?b + 65536"
    by (simp add: UTF16SurrogatePairToCodePoint_def)
  from a have "?a * 1024 \<le> 1023 * 1024" by simp
  with b cp show "UTF16SurrogatePairToCodePoint l t < 1114112" by simp
  from cp show "57343 < UTF16SurrogatePairToCodePoint l t" by simp
  from b have d: "(?a * 1024 + ?b) div 1024 = ?a" and m: "(?a * 1024 + ?b) mod 1024 = ?b"
    by simp_all
  have "UTF16EncodeCodePoint (?a * 1024 + ?b + 65536)
          = [of_nat ((?a * 1024 + ?b) div 1024 + 55296), of_nat ((?a * 1024 + ?b) mod 1024 + 56320)]"
    by (simp add: UTF16EncodeCodePoint_def)
  also have "\<dots> = [of_nat (unat l), of_nat (unat t)]"
    by (simp only: d m l t)
  finally show "UTF16EncodeCodePoint (UTF16SurrogatePairToCodePoint l t) = [l, t]"
    by (simp add: cp)
qed

lemma code_unit_roundtrip:
  assumes "\<not> is_lead c" "\<not> is_trail c"
  shows "unat c < 1114112" and "unat c < 55296 \<or> 57343 < unat c"
    and "UTF16EncodeCodePoint (unat c) = [c]"
proof -
  have "unat c < 2 ^ LENGTH(16)" by (rule unsigned_less)
  then have lt: "unat c < 65536" by simp
  then show "unat c < 1114112" by simp
  from assms show "unat c < 55296 \<or> 57343 < unat c"
    by (auto simp: is_lead_def is_trail_def)
  from lt show "UTF16EncodeCodePoint (unat c) = [c]"
    by (simp add: UTF16EncodeCodePoint_def)
qed

text \<open>Decoding undoes encoding, for every string that can be encoded.\<close>

lemma decodeURIComponent_encodeURIComponent:
  "encodeURIComponent t = Inr e \<Longrightarrow> decodeURIComponent e = Inr t"
proof (induction t arbitrary: e rule: encodeURIComponent.induct)
  case 1
  then show ?case by simp
next
  case (2 c s)
  show ?case
  proof (cases "unescaped c")
    case True
    with "2.prems" obtain e1 where e1: "encodeURIComponent s = Inr e1" "e = c # e1"
      by (auto simp: prepend_Inr)
    from "2.IH"(1)[OF True e1(1)] have "decodeURIComponent e1 = Inr s" .
    with e1 unescaped_not_percent[OF True] show ?thesis by (simp add: prepend_def)
  next
    case False
    show ?thesis
    proof (cases "is_trail c")
      case True
      with False "2.prems" show ?thesis by simp
    next
      case nt: False
      show ?thesis
      proof (cases "is_lead c")
        case True
        with False nt "2.prems" obtain d s1 where s: "s = d # s1" and d: "is_trail d"
          by (cases s) (auto split: if_splits)
        with False nt True "2.prems" obtain e1 where
          e1: "encodeURIComponent s1 = Inr e1"
          "e = concat (map escape_octet (utf8_encode (UTF16SurrogatePairToCodePoint c d))) @ e1"
          by (auto simp: prepend_Inr)
        from "2.IH"(2)[OF False nt True s d e1(1)] have ih: "decodeURIComponent e1 = Inr s1" .
        note p = surrogate_pair_roundtrip[OF True d]
        have "decodeURIComponent e
                = prepend (UTF16EncodeCodePoint (UTF16SurrogatePairToCodePoint c d))
                    (decodeURIComponent e1)"
          unfolding e1(2) using p(1) p(2) by (intro decode_code_point) simp_all
        with ih p(3) s show ?thesis by (simp add: prepend_def)
      next
        case nl: False
        with False nt "2.prems" obtain e1 where
          e1: "encodeURIComponent s = Inr e1"
          "e = concat (map escape_octet (utf8_encode (unat c))) @ e1"
          by (auto simp: prepend_Inr)
        from "2.IH"(3)[OF False nt nl e1(1)] have ih: "decodeURIComponent e1 = Inr s" .
        note p = code_unit_roundtrip[OF nl nt]
        have "decodeURIComponent e
                = prepend (UTF16EncodeCodePoint (unat c)) (decodeURIComponent e1)"
          unfolding e1(2) using p(1) p(2) by (intro decode_code_point)
        with ih p(3) show ?thesis by (simp add: prepend_def)
      qed
    qed
  qed
qed

text \<open>An encoded string contains neither ";" nor "=".\<close>

lemma hexdigit_plain: "n < 16 \<Longrightarrow> hexdigit n \<noteq> 59 \<and> hexdigit n \<noteq> 61"
proof -
  assume n: "n < 16"
  then have "unat (hexdigit n) = (if n < 10 then 48 + n else 55 + n)"
    by (simp add: hexdigit_def unat_code_unit del: of_nat_add)
  with n have "unat (hexdigit n) \<noteq> 59 \<and> unat (hexdigit n) \<noteq> 61" by (simp split: if_splits)
  then show ?thesis by auto
qed

lemma escape_octet_plain: "b < 256 \<Longrightarrow> 59 \<notin> set (escape_octet b) \<and> 61 \<notin> set (escape_octet b)"
  using hexdigit_plain[of "b div 16"] hexdigit_plain[of "b mod 16"]
  by (simp add: escape_octet_def)

lemma escapes_plain:
  "\<forall>b\<in>set bs. b < 256 \<Longrightarrow>
     59 \<notin> set (concat (map escape_octet bs)) \<and> 61 \<notin> set (concat (map escape_octet bs))"
  using escape_octet_plain by (induction bs) auto

lemma unescaped_plain: "unescaped c \<Longrightarrow> c \<noteq> 59 \<and> c \<noteq> 61"
  by (auto simp: unescaped_def Let_def)

lemma encodeURIComponent_plain:
  "encodeURIComponent t = Inr e \<Longrightarrow> 59 \<notin> set e \<and> 61 \<notin> set e"
proof (induction t arbitrary: e rule: encodeURIComponent.induct)
  case 1
  then show ?case by simp
next
  case (2 c s)
  show ?case
  proof (cases "unescaped c")
    case True
    with "2.prems" obtain e1 where e1: "encodeURIComponent s = Inr e1" "e = c # e1"
      by (auto simp: prepend_Inr)
    with "2.IH"(1)[OF True e1(1)] unescaped_plain[OF True] show ?thesis by simp
  next
    case False
    show ?thesis
    proof (cases "is_trail c")
      case True
      with False "2.prems" show ?thesis by simp
    next
      case nt: False
      show ?thesis
      proof (cases "is_lead c")
        case True
        with False nt "2.prems" obtain d s1 where s: "s = d # s1" and d: "is_trail d"
          by (cases s) (auto split: if_splits)
        with False nt True "2.prems" obtain e1 where
          e1: "encodeURIComponent s1 = Inr e1"
          "e = concat (map escape_octet (utf8_encode (UTF16SurrogatePairToCodePoint c d))) @ e1"
          by (auto simp: prepend_Inr)
        from escapes_plain[OF utf8_encode_octets[OF surrogate_pair_roundtrip(1)[OF True d]]]
          "2.IH"(2)[OF False nt True s d e1(1)] e1(2)
        show ?thesis by simp
      next
        case nl: False
        with False nt "2.prems" obtain e1 where
          e1: "encodeURIComponent s = Inr e1"
          "e = concat (map escape_octet (utf8_encode (unat c))) @ e1"
          by (auto simp: prepend_Inr)
        from escapes_plain[OF utf8_encode_octets[OF code_unit_roundtrip(1)[OF nl nt]]]
          "2.IH"(3)[OF False nt nl e1(1)] e1(2)
        show ?thesis by simp
      qed
    qed
  qed
qed

section \<open>Properties of the cookie read\<close>

lemma split_from_no_separator:
  "sep \<noteq> [] \<Longrightarrow> hd sep \<notin> set s \<Longrightarrow> split_from sep acc s = [rev acc @ s]"
proof (induction s arbitrary: acc)
  case Nil
  then show ?case by simp
next
  case (Cons c s)
  from Cons.prems obtain d sep1 where sep: "sep = d # sep1" by (cases sep) auto
  with Cons.prems have "c \<noteq> d" by auto
  with sep have "\<not> startsWith (c # s) sep" by (auto simp: startsWith_def)
  with Cons show ?case by simp
qed

lemma split_from_head:
  "\<exists>rest. split_from [d] acc s = (rev acc @ takeWhile (\<lambda>c. c \<noteq> d) s) # rest"
proof (induction s arbitrary: acc)
  case Nil
  then show ?case by simp
next
  case (Cons c s)
  show ?case
  proof (cases "c = d")
    case True
    then show ?thesis by (simp add: startsWith_def)
  next
    case False
    with Cons[of "c # acc"] show ?thesis by (simp add: startsWith_def)
  qed
qed

lemma split_from_at_first:
  "d \<notin> set a \<Longrightarrow> split_from [d] acc (a @ d # b) = (rev acc @ a) # split_from [d] [] b"
  by (induction a arbitrary: acc) (auto simp: startsWith_def)

lemma second_piece_of_entry:
  assumes "d \<notin> set a"
  shows "second_piece (split_string (a @ d # b) [d]) = takeWhile (\<lambda>c. c \<noteq> d) b"
proof -
  from split_from_head[of d "[]" b] obtain rest where
    "split_from [d] [] b = takeWhile (\<lambda>c. c \<noteq> d) b # rest" by auto
  with split_from_at_first[OF assms, of "[]" b] show ?thesis
    by (simp add: split_string_def second_piece_def)
qed

lemma entry_parts:
  assumes "61 \<in> set e"
  shows "e = entry_key e @ 61 # entry_value e"
proof -
  from assms have "dropWhile (\<lambda>c. c \<noteq> 61) e \<noteq> []" by simp
  moreover from this have "hd (dropWhile (\<lambda>c. c \<noteq> 61) e) = 61"
    using hd_dropWhile[of "\<lambda>c. c \<noteq> 61" e] by simp
  ultimately have "dropWhile (\<lambda>c. c \<noteq> 61) e = 61 # drop 1 (dropWhile (\<lambda>c. c \<noteq> 61) e)"
    by (cases "dropWhile (\<lambda>c. c \<noteq> 61) e") simp_all
  with takeWhile_dropWhile_id[of "\<lambda>c. c \<noteq> 61" e] show ?thesis
    by (simp add: entry_key_def entry_value_def)
qed

lemma startsWith_iff: "startsWith s p \<longleftrightarrow> (\<exists>r. s = p @ r)"
proof (induction p arbitrary: s)
  case Nil
  then show ?case by (simp add: startsWith_def)
next
  case (Cons x p)
  show ?case
  proof (cases s)
    case Nil
    then show ?thesis by (simp add: startsWith_def)
  next
    case (Cons y s1)
    with Cons.IH[of s1] show ?thesis by (simp add: startsWith_def)
  qed
qed

lemma startsWith_key:
  assumes "61 \<notin> set name"
  shows "startsWith e (name @ js ''='') \<longleftrightarrow> 61 \<in> set e \<and> entry_key e = name"
proof
  assume "startsWith e (name @ js ''='')"
  then obtain r where e: "e = name @ 61 # r" by (auto simp: startsWith_iff js_def)
  from assms have "\<forall>x\<in>set name. x \<noteq> 61" by auto
  with e show "61 \<in> set e \<and> entry_key e = name"
    by (simp add: entry_key_def takeWhile_tail)
next
  assume "61 \<in> set e \<and> entry_key e = name"
  with entry_parts[of e] have "e = (name @ js ''='') @ entry_value e" by (simp add: js_def)
  then show "startsWith e (name @ js ''='')" unfolding startsWith_iff by (rule exI)
qed

text \<open>
  What the code returns: the decoded text between the first and the second "=" of the
  first entry whose key is the name. It is the value of the entry, as the
  specification has it, whenever no value contains "=".
\<close>

lemma getCookie_characterisation:
  assumes "61 \<notin> set name"
  shows "getCookie name w =
    (case List.find (\<lambda>e. 61 \<in> set e \<and> entry_key e = name) (split_string (cookie w) (js ''; '')) of
       None \<Rightarrow> Inr None
     | Some e \<Rightarrow>
         (case decodeURIComponent (takeWhile (\<lambda>c. c \<noteq> 61) (entry_value e)) of
            Inl x \<Rightarrow> Inl x
          | Inr v \<Rightarrow> Inr (Some v)))"
proof -
  have p: "(\<lambda>c. startsWith c (name @ js ''='')) = (\<lambda>e. 61 \<in> set e \<and> entry_key e = name)"
    using startsWith_key[OF assms] by auto
  show ?thesis
  proof (cases "List.find (\<lambda>e. 61 \<in> set e \<and> entry_key e = name) (split_string (cookie w) (js ''; ''))")
    case None
    then show ?thesis by (simp add: getCookie_def p)
  next
    case (Some m)
    then have m: "61 \<in> set m" "entry_key m = name" by (auto simp: find_Some_iff)
    then have "m \<noteq> []" by auto
    moreover from entry_parts[OF m(1)] m(2) have "m = name @ 61 # entry_value m" by simp
    with second_piece_of_entry[OF assms, of "entry_value m"]
    have "second_piece (split_string m (js ''='')) = takeWhile (\<lambda>c. c \<noteq> 61) (entry_value m)"
      by (simp add: js_def)
    ultimately show ?thesis using Some by (simp add: getCookie_def p)
  qed
qed

lemma getCookie_agrees_with_spec:
  assumes "61 \<notin> set name"
    and "\<forall>e\<in>set (split_string (cookie w) (js ''; '')). 61 \<notin> set (entry_value e)"
  shows "getCookie name w = spec_getCookie name w"
proof (cases "List.find (\<lambda>e. 61 \<in> set e \<and> entry_key e = name) (split_string (cookie w) (js ''; ''))")
  case None
  then show ?thesis by (simp add: getCookie_characterisation[OF assms(1)] spec_getCookie_def)
next
  case (Some m)
  then have "m \<in> set (split_string (cookie w) (js ''; ''))" by (auto simp: find_Some_iff)
  with assms(2) have tw: "takeWhile (\<lambda>c. c \<noteq> 61) (entry_value m) = entry_value m"
    by (auto simp: takeWhile_eq_all_conv)
  from Some show ?thesis
    by (simp add: getCookie_characterisation[OF assms(1)] spec_getCookie_def tw)
qed

text \<open>
  The round trip of claim C7 holds: a token that is URL-encoded into the cookie is
  read back unchanged.
\<close>

lemma getCSRFToken_roundtrip:
  assumes enc: "encodeURIComponent t = Inr e"
    and c: "cookie w = js ''authgate_csrf='' @ e"
  shows "getCSRFToken w = Inr (Some t)"
proof -
  let ?name = "js ''authgate_csrf''"
  from encodeURIComponent_plain[OF enc] have plain: "59 \<notin> set e" "61 \<notin> set e" by simp_all
  have name: "61 \<notin> set ?name" "59 \<notin> set ?name" by (simp_all add: js_def)
  have cookie: "cookie w = ?name @ 61 # e" using c by (simp add: js_def)
  with plain name have "hd (js ''; '') \<notin> set (cookie w)" by (simp add: js_def)
  then have entries: "split_string (cookie w) (js ''; '') = [cookie w]"
    using split_from_no_separator[of "js ''; ''" "cookie w" "[]"]
    by (simp add: split_string_def js_def)
  from name(1) have "\<forall>x\<in>set ?name. x \<noteq> 61" by auto
  with cookie have key: "entry_key (cookie w) = ?name"
    by (simp add: entry_key_def takeWhile_tail)
  have mem: "61 \<in> set (cookie w)" using cookie by simp
  from entry_parts[OF mem] key cookie have val: "entry_value (cookie w) = e" by simp
  from plain(2) have tw: "takeWhile (\<lambda>c. c \<noteq> 61) e = e" by (auto simp: takeWhile_eq_all_conv)
  from mem key val show ?thesis
    by (simp add: getCSRFToken_def getCookie_characterisation[OF name(1)] entries tw
        decodeURIComponent_encodeURIComponent[OF enc])
qed

lemma malformed_cookie_read:
  "cookie w = js ''authgate_csrf=%'' \<Longrightarrow> getCSRFToken w = Inl URIError"
  by (simp add: cookie_eval)

lemma cookie_answering: "cookie (answering f c) = c"
  by (simp add: answering_def)

text \<open>
  Claim C8 says that the cookie read never throws, whatever the cookie string, with
  invalid percent-encoding named among the malformed strings. The code passes the
  value to \<open>decodeURIComponent\<close> outside any \<open>try\<close>: on the page whose cookie string is
  \<open>authgate_csrf=%\<close> the read throws \<open>URIError\<close>.
\<close>

theorem getCSRFToken_throws_on_malformed_escape:
  "getCSRFToken malformed = Inl URIError"
  by (simp add: malformed_cookie_read malformed_def cookie_answering)

text \<open>
  Claim C7 says that \<open>getCSRFToken\<close> returns the URL-decoded value of the first entry
  whose key is \<open>authgate_csrf\<close>. The code takes the second piece of the entry split at
  every "=", so a value that contains "=" is cut short (the round trip of an encoded
  token holds, as shown above): for the cookie string \<open>authgate_csrf=abc==\<close> the code
  returns "abc", where the read as the specification words it returns the value,
  "abc==".
\<close>

theorem getCSRFToken_truncates_at_equals:
  "getCSRFToken (answering f (js ''authgate_csrf=abc=='')) = Inr (Some (js ''abc''))
   \<and> spec_getCookie (js ''authgate_csrf'') (answering f (js ''authgate_csrf=abc==''))
       = Inr (Some (js ''abc==''))"
  by (simp add: cookie_eval spec_getCookie_def entry_key_def entry_value_def answering_def)

section \<open>Properties of logout\<close>

lemma logout_thrown:
  "getCSRFToken w = Inl e \<Longrightarrow> logout opts w = (Inl e, w)"
  by (simp add: logout_def)

lemma logout_no_token:
  "getCSRFToken w = Inr csrf \<Longrightarrow> falsy csrf \<Longrightarrow> logout opts w = (Inr (Failed missing_csrf), w)"
  by (simp add: logout_def)

lemma logout_rejected:
  assumes "getCSRFToken w = Inr csrf" "\<not> falsy csrf"
    "fetch (fst (logout_request (the csrf))) (snd (logout_request (the csrf))) w = (Inl e, w1)"
  shows "logout opts w = (Inr (Failed request_failed), w1)"
  using assms by (simp add: logout_def)

lemma logout_answered:
  assumes "getCSRFToken w = Inr csrf" "\<not> falsy csrf"
    "fetch (fst (logout_request (the csrf))) (snd (logout_request (the csrf))) w = (Inr res, w1)"
  shows "logout opts w =
    (if \<not> ok res
     then (Inr (Failed (if status res = 401 \<or> status res = 403 then unauthorized else request_failed)), w1)
     else if falsy (redirect_of opts) then (Inr Ok, w1)
     else (case href_setter w1 (the (redirect_of opts)) of
             Some e \<Rightarrow> (Inl e, w1)
           | None \<Rightarrow> (Inr Ok, w1\<lparr>navigations := navigations w1 @ [the (redirect_of opts)]\<rparr>)))"
  using assms by (simp add: logout_def)

lemma logout_answered_accepted:
  assumes t: "getCSRFToken w = Inr csrf" and nf: "\<not> falsy csrf"
    and f: "fetch (fst (logout_request (the csrf))) (snd (logout_request (the csrf))) w = (Inr res, w1)"
    and acc: "\<forall>u. redirect_of opts = Some u \<longrightarrow> href_setter w u = None"
  shows "logout opts w =
    (if \<not> ok res
     then (Inr (Failed (if status res = 401 \<or> status res = 403 then unauthorized else request_failed)), w1)
     else (Inr Ok, if falsy (redirect_of opts) then w1
                   else w1\<lparr>navigations := navigations w1 @ [the (redirect_of opts)]\<rparr>))"
proof (cases "redirect_of opts")
  case None
  then have "falsy (redirect_of opts)" by (simp add: falsy_def)
  with logout_answered[OF t nf f, of opts] show ?thesis by simp
next
  case (Some u)
  from fetch_effect[OF f] have "href_setter w1 = href_setter w" by simp
  with acc Some have "href_setter w1 (the (redirect_of opts)) = None" by simp
  with logout_answered[OF t nf f, of opts] show ?thesis by simp
qed

text \<open>
  The outcome of \<open>logout\<close> wherever the cookie read returns and the location accepts
  the redirect, if one is given: no token (or an empty one) gives \<open>missing_csrf\<close> and
  no call; otherwise there is exactly one call, and a rejected call gives
  \<open>request_failed\<close>, a 2xx answer success, 401 or 403 \<open>unauthorized\<close>, any other status
  \<open>request_failed\<close>.
\<close>

lemma logout_outcomes:
  assumes t: "getCSRFToken w = Inr csrf"
    and acc: "\<forall>u. redirect_of opts = Some u \<longrightarrow> href_setter w u = None"
  shows "fst (logout opts w) =
     Inr (if falsy csrf then Failed missing_csrf
          else (case outcome (network w (calls w) (logout_request (the csrf))) of
                  Inl e \<Rightarrow> Failed request_failed
                | Inr res \<Rightarrow>
                    if ok res then Ok
                    else if status res = 401 \<or> status res = 403 then Failed unauthorized
                    else Failed request_failed))"
    and "calls (snd (logout opts w)) =
           (if falsy csrf then calls w else calls w @ [logout_request (the csrf)])"
proof -
  obtain r w1 where
    f: "fetch (fst (logout_request (the csrf))) (snd (logout_request (the csrf))) w = (r, w1)"
    by (cases "fetch (fst (logout_request (the csrf))) (snd (logout_request (the csrf))) w")
  note eff = fetch_effect[OF f]
  show "fst (logout opts w) =
     Inr (if falsy csrf then Failed missing_csrf
          else (case outcome (network w (calls w) (logout_request (the csrf))) of
                  Inl e \<Rightarrow> Failed request_failed
                | Inr res \<Rightarrow>
                    if ok res then Ok
                    else if status res = 401 \<or> status res = 403 then Failed unauthorized
                    else Failed request_failed))"
  proof (cases "falsy csrf")
    case True
    with t show ?thesis by (simp add: logout_no_token)
  next
    case False
    show ?thesis
    proof (cases r)
      case (Inl e)
      with t False f eff show ?thesis by (simp add: logout_rejected)
    next
      case (Inr res)
      with f have f': "fetch (fst (logout_request (the csrf))) (snd (logout_request (the csrf))) w
          = (Inr res, w1)" by simp
      from logout_answered_accepted[OF t False f' acc] False eff Inr show ?thesis by simp
    qed
  qed
  show "calls (snd (logout opts w)) =
           (if falsy csrf then calls w else calls w @ [logout_request (the csrf)])"
  proof (cases "falsy csrf")
    case True
    with t show ?thesis by (simp add: logout_no_token)
  next
    case False
    show ?thesis
    proof (cases r)
      case (Inl e)
      with t False f eff show ?thesis by (simp add: logout_rejected)
    next
      case (Inr res)
      with f have f': "fetch (fst (logout_request (the csrf))) (snd (logout_request (the csrf))) w
          = (Inr res, w1)" by simp
      from logout_answered_accepted[OF t False f' acc] False eff Inr show ?thesis by simp
    qed
  qed
qed

text \<open>
  Claim C4 says, for every cookie state, that \<open>logout\<close> turns every failure into a
  typed outcome and never raises. The case analysis above holds wherever the cookie
  read returns and no redirect is refused; but the read stands before the \<open>try\<close>, so
  on the page whose cookie
  string is \<open>authgate_csrf=%\<close> the call of \<open>logout\<close> throws \<open>URIError\<close>, with no
  network call made.
\<close>

theorem logout_throws_on_malformed_cookie:
  "logout opts malformed = (Inl URIError, malformed)"
  by (simp add: logout_thrown malformed_cookie_read malformed_def cookie_answering)

text \<open>
  The assignment to \<open>window.location.href\<close> is outside the \<open>try\<close>: when the location
  refuses the value, \<open>logout\<close> throws after the request has succeeded, and no
  navigation occurs.
\<close>

lemma logout_refused_redirect:
  "fst (logout (Some \<lparr>redirectTo = Some (js ''http://'')\<rparr>) healthy) = Inl SyntaxError
   \<and> navigations (snd (logout (Some \<lparr>redirectTo = Some (js ''http://'')\<rparr>) healthy)) = []
   \<and> calls (snd (logout (Some \<lparr>redirectTo = Some (js ''http://'')\<rparr>) healthy))
       = [logout_request (js ''abc'')]"
  by (simp add: logout_def cookie_eval world_eval)

text \<open>
  Claim C5, as amended. For every call of \<open>logout\<close> whose \<open>redirectTo\<close>, if one is
  supplied, is a value the location accepts: a navigation occurs if and only if the
  logout request succeeded (a non-empty CSRF token was read and the POST to
  \<open>/auth/logout\<close> was answered with a 2xx status) and a non-empty \<open>redirectTo\<close> was
  supplied (the code tests the option for truthiness, so the empty string navigates
  nowhere); the target is exactly the supplied URL; no navigation occurs when the
  request did not succeed; the outcome is \<open>ok: true\<close> exactly when the request
  succeeded, and it is the outcome of the same call without the option. What happens
  when the location refuses the value is left out.
\<close>

theorem logout_navigation:
  assumes acc: "\<forall>u. redirect_of opts = Some u \<longrightarrow> href_setter w u = None"
  shows
    "(let succeeded =
        (\<exists>csrf res.
           getCSRFToken w = Inr (Some csrf) \<and> csrf \<noteq> [] \<and>
           outcome (network w (calls w)
             (UrlString (js ''/auth/logout''),
              \<lparr>req_method = Some (js ''POST''),
               headers = Some [(js ''X-CSRF-Token'', csrf)],
               body = None,
               credentials = Some (js ''include''),
               other = []\<rparr>)) = Inr res \<and>
           200 \<le> status res \<and> status res \<le> 299)
      in navigations (snd (logout opts w)) =
           (case redirect_of opts of
              None \<Rightarrow> navigations w
            | Some u \<Rightarrow> if succeeded \<and> u \<noteq> [] then navigations w @ [u] else navigations w)
         \<and> (fst (logout opts w) = Inr Ok \<longleftrightarrow> succeeded)
         \<and> fst (logout opts w) = fst (logout None w))"
proof -
  define succeeded where "succeeded \<longleftrightarrow>
        (\<exists>csrf res.
           getCSRFToken w = Inr (Some csrf) \<and> csrf \<noteq> [] \<and>
           outcome (network w (calls w)
             (UrlString (js ''/auth/logout''),
              \<lparr>req_method = Some (js ''POST''),
               headers = Some [(js ''X-CSRF-Token'', csrf)],
               body = None,
               credentials = Some (js ''include''),
               other = []\<rparr>)) = Inr res \<and>
           200 \<le> status res \<and> status res \<le> 299)"
  have s: "succeeded \<longleftrightarrow>
        (\<exists>csrf res. getCSRFToken w = Inr (Some csrf) \<and> csrf \<noteq> [] \<and>
           outcome (network w (calls w) (logout_request csrf)) = Inr res \<and> ok res)"
    by (simp add: succeeded_def logout_request_def ok_def)
  have none: "redirect_of None = None" by (simp add: redirect_of_def)
  have acc0: "\<forall>u. redirect_of None = Some u \<longrightarrow> href_setter w u = None" by (simp add: none)
  have main: "navigations (snd (logout opts w)) =
           (case redirect_of opts of
              None \<Rightarrow> navigations w
            | Some u \<Rightarrow> if succeeded \<and> u \<noteq> [] then navigations w @ [u] else navigations w)
         \<and> (fst (logout opts w) = Inr Ok \<longleftrightarrow> succeeded)
         \<and> fst (logout opts w) = fst (logout None w)"
  proof (cases "getCSRFToken w")
    case (Inl e)
    then have "\<not> succeeded" by (simp add: s)
    with Inl show ?thesis by (simp add: logout_thrown split: option.splits)
  next
    case (Inr csrf)
    show ?thesis
    proof (cases "falsy csrf")
      case True
      with Inr have "\<not> succeeded" by (auto simp: s falsy_def)
      with Inr True show ?thesis by (simp add: logout_no_token split: option.splits)
    next
      case False
      then obtain c where c: "csrf = Some c" "c \<noteq> []" by (cases csrf) (auto simp: falsy_def)
      obtain r w1 where
        f: "fetch (fst (logout_request (the csrf))) (snd (logout_request (the csrf))) w = (r, w1)"
        by (cases "fetch (fst (logout_request (the csrf))) (snd (logout_request (the csrf))) w")
      from fetch_effect[OF f] c
      have nav: "navigations w1 = navigations w"
        and out: "outcome (network w (calls w) (logout_request c)) = r" by simp_all
      show ?thesis
      proof (cases r)
        case (Inl e)
        with Inr c out have "\<not> succeeded" by (simp add: s)
        with Inr False f Inl nav show ?thesis
          by (simp add: logout_rejected split: option.splits)
      next
        case r: (Inr res)
        with Inr c out have sr: "succeeded \<longleftrightarrow> ok res" by (simp add: s)
        from f r
        have f': "fetch (fst (logout_request (the csrf))) (snd (logout_request (the csrf))) w
            = (Inr res, w1)" by simp
        note a = logout_answered_accepted[OF Inr False f' acc]
        note b = logout_answered_accepted[OF Inr False f' acc0]
        from nav sr show ?thesis
          by (simp add: a b falsy_def none split: option.splits)
      qed
    qed
  qed
  then show ?thesis unfolding succeeded_def Let_def .
qed

text \<open>
  The claim as first stated fails: with \<open>redirectTo\<close> supplied as the empty string and
  a successful logout request, no navigation occurs.
\<close>

theorem logout_empty_redirect_counterexample:
  "fst (logout (Some \<lparr>redirectTo = Some (js '''')\<rparr>)
          (answering (\<lambda>n. Inr (numbered 200 n)) (js ''authgate_csrf=abc''))) = Inr Ok
   \<and> navigations (snd (logout (Some \<lparr>redirectTo = Some (js '''')\<rparr>)
          (answering (\<lambda>n. Inr (numbered 200 n)) (js ''authgate_csrf=abc'')))) = []"
  by (simp add: logout_def cookie_eval world_eval)

theorem logout_navigation_witness:
  "fst (logout (Some \<lparr>redirectTo = Some (js ''/after'')\<rparr>) healthy) = Inr Ok
   \<and> navigations (snd (logout (Some \<lparr>redirectTo = Some (js ''/after'')\<rparr>) healthy)) = [js ''/after'']
   \<and> fst (logout (Some \<lparr>redirectTo = Some (js ''/after'')\<rparr>) server_error)
       = fst (logout None server_error)
   \<and> navigations (snd (logout (Some \<lparr>redirectTo = Some (js ''/after'')\<rparr>) server_error)) = []
   \<and> navigations (snd (logout (Some \<lparr>redirectTo = Some (js ''/after'')\<rparr>) rejected)) = []
   \<and> navigations (snd (logout (Some \<lparr>redirectTo = Some (js ''/after'')\<rparr>) signed_out)) = []"
proof -
  let ?opts = "Some \<lparr>redirectTo = Some (js ''/after'')\<rparr>"
  have r: "redirect_of ?opts = Some (js ''/after'')" by (simp add: redirect_of_def)
  have n: "js ''/after'' \<noteq> []" by (simp add: js_def)
  have acc: "\<forall>u. redirect_of ?opts = Some u \<longrightarrow> href_setter w u = None"
    if "href_setter w (js ''/after'') = None" for w
    using that by (simp add: r)
  have h: "href_setter healthy (js ''/after'') = None"
    "href_setter server_error (js ''/after'') = None"
    "href_setter rejected (js ''/after'') = None"
    "href_setter signed_out (js ''/after'') = None"
    by (simp_all add: world_eval user_eval js_def)
  have e: "navigations healthy = []" "navigations server_error = []"
    "navigations rejected = []" "navigations signed_out = []"
    by (simp_all add: world_eval user_eval)
  have tok: "getCSRFToken healthy = Inr (Some (js ''abc''))"
    "getCSRFToken server_error = Inr (Some (js ''abc''))"
    "getCSRFToken rejected = Inr (Some (js ''abc''))"
    "getCSRFToken signed_out = Inr None"
    by (simp_all add: cookie_eval world_eval user_eval)
  have abc: "js ''abc'' \<noteq> []" by (simp add: js_def)
  have out: "outcome (network healthy (calls healthy) q) = Inr (numbered 200 0)"
    "outcome (network server_error (calls server_error) q) = Inr (numbered 500 0)"
    "outcome (network rejected (calls rejected) q) = Inr (numbered 401 0)" for q
    by (simp_all add: world_eval user_eval)
  have st: "status (numbered k 0) = k" for k by (simp add: numbered_def)
  from logout_navigation[OF acc[OF h(1)]] r n e(1) tok(1) abc out(1) st
  have A: "fst (logout ?opts healthy) = Inr Ok
     \<and> navigations (snd (logout ?opts healthy)) = [js ''/after'']"
    by (simp add: Let_def)
  from logout_navigation[OF acc[OF h(2)]] r n e(2) tok(2) abc out(2) st
  have B: "fst (logout ?opts server_error) = fst (logout None server_error)
     \<and> navigations (snd (logout ?opts server_error)) = []"
    by (simp add: Let_def)
  from logout_navigation[OF acc[OF h(3)]] r n e(3) tok(3) abc out(3) st
  have C: "navigations (snd (logout ?opts rejected)) = []"
    by (simp add: Let_def)
  from logout_navigation[OF acc[OF h(4)]] r n e(4) tok(4)
  have D: "navigations (snd (logout ?opts signed_out)) = []"
    by (simp add: Let_def)
  from A B C D show ?thesis by blast
qed

section \<open>Properties of refreshSession\<close>

lemma refreshSession_thrown:
  "getCSRFToken w = Inl e \<Longrightarrow> refreshSession a w = (Inl e, w)"
  by (simp add: refreshSession_def)

lemma refreshSession_no_token:
  "getCSRFToken w = Inr csrf \<Longrightarrow> falsy csrf \<Longrightarrow> refreshSession a w = (Inr False, w)"
  by (simp add: refreshSession_def)

lemma refreshSession_unencodable:
  assumes "getCSRFToken w = Inr csrf" "\<not> falsy csrf"
    "encodeURIComponent (case a of None \<Rightarrow> js ''app'' | Some x \<Rightarrow> x) = Inl e"
  shows "refreshSession a w = (Inr False, w)"
  using assms by (simp add: refreshSession_def)

lemma refreshSession_sent:
  assumes "getCSRFToken w = Inr csrf" "\<not> falsy csrf"
    "encodeURIComponent (case a of None \<Rightarrow> js ''app'' | Some x \<Rightarrow> x) = Inr enc"
    "fetch (fst (refresh_request enc (the csrf))) (snd (refresh_request enc (the csrf))) w = (r, w1)"
  shows "refreshSession a w = (Inr (case r of Inl e \<Rightarrow> False | Inr res \<Rightarrow> ok res), w1)"
  using assms by (cases r) (simp_all add: refreshSession_def)

lemma refreshSession_default: "refreshSession None w = refreshSession (Some (js ''app'')) w"
  by (simp add: refreshSession_def split: sum.splits)

text \<open>
  The result of \<open>refreshSession\<close> wherever the cookie read returns: true exactly when
  a non-empty token was read, the audience could be encoded, and the call completed
  with a 2xx status.
\<close>

lemma refreshSession_outcomes:
  assumes "getCSRFToken w = Inr csrf"
  shows "fst (refreshSession a w) =
     Inr (\<not> falsy csrf \<and>
          (case encodeURIComponent (case a of None \<Rightarrow> js ''app'' | Some x \<Rightarrow> x) of
             Inl e \<Rightarrow> False
           | Inr enc \<Rightarrow>
               (case outcome (network w (calls w) (refresh_request enc (the csrf))) of
                  Inl e \<Rightarrow> False
                | Inr res \<Rightarrow> ok res)))"
proof (cases "falsy csrf")
  case True
  with assms show ?thesis by (simp add: refreshSession_no_token)
next
  case False
  show ?thesis
  proof (cases "encodeURIComponent (case a of None \<Rightarrow> js ''app'' | Some x \<Rightarrow> x)")
    case (Inl e)
    with assms False show ?thesis by (simp add: refreshSession_unencodable)
  next
    case (Inr enc)
    obtain r w1 where
      f: "fetch (fst (refresh_request enc (the csrf))) (snd (refresh_request enc (the csrf))) w = (r, w1)"
      by (cases "fetch (fst (refresh_request enc (the csrf))) (snd (refresh_request enc (the csrf))) w")
    from fetch_effect[OF f]
    have out: "outcome (network w (calls w) (refresh_request enc (the csrf))) = r" by simp
    from refreshSession_sent[OF assms False Inr f] Inr False out show ?thesis by simp
  qed
qed

text \<open>What a call of \<open>refreshSession\<close> that returns has sent.\<close>

lemma refreshSession_returns:
  assumes "refreshSession (Some a) w = (Inr b, w2)"
  shows "(calls w2 = calls w \<and> \<not> b \<and>
            (getCSRFToken w = Inr None \<or> getCSRFToken w = Inr (Some [])
             \<or> (\<exists>e. encodeURIComponent a = Inl e)))
         \<or> (\<exists>csrf enc. getCSRFToken w = Inr (Some csrf) \<and> csrf \<noteq> [] \<and>
               encodeURIComponent a = Inr enc \<and>
               calls w2 = calls w @ [refresh_request enc csrf])"
proof (cases "getCSRFToken w")
  case (Inl e)
  with assms show ?thesis by (simp add: refreshSession_thrown)
next
  case (Inr csrf)
  show ?thesis
  proof (cases "falsy csrf")
    case True
    with Inr assms show ?thesis by (auto simp: refreshSession_no_token falsy_cases)
  next
    case False
    then obtain c where c: "csrf = Some c" "c \<noteq> []" by (cases csrf) (auto simp: falsy_def)
    show ?thesis
    proof (cases "encodeURIComponent a")
      case (Inl e)
      with Inr False assms show ?thesis by (auto simp: refreshSession_unencodable)
    next
      case enc: (Inr enc)
      obtain r w1 where
        f: "fetch (fst (refresh_request enc (the csrf))) (snd (refresh_request enc (the csrf))) w = (r, w1)"
        by (cases "fetch (fst (refresh_request enc (the csrf))) (snd (refresh_request enc (the csrf))) w")
      from refreshSession_sent[OF Inr False _ f, of "Some a"] enc assms
      have "w2 = w1" by simp
      with fetch_effect[OF f] Inr c enc show ?thesis by simp
    qed
  qed
qed

lemma refreshSession_true_sent:
  assumes "refreshSession (Some a) w = (Inr True, w2)"
  shows "\<exists>csrf enc. getCSRFToken w = Inr (Some csrf) \<and> csrf \<noteq> [] \<and>
               encodeURIComponent a = Inr enc \<and>
               calls w2 = calls w @ [refresh_request enc csrf]"
  using refreshSession_returns[OF assms] by blast

lemma refreshSession_throws_unchanged:
  assumes "refreshSession a w = (Inl e, w2)"
  shows "w2 = w \<and> getCSRFToken w = Inl e"
proof (cases "getCSRFToken w")
  case (Inl x)
  with assms show ?thesis by (simp add: refreshSession_thrown)
next
  case (Inr csrf)
  show ?thesis
  proof (cases "falsy csrf")
    case True
    with Inr assms show ?thesis by (simp add: refreshSession_no_token)
  next
    case False
    show ?thesis
    proof (cases "encodeURIComponent (case a of None \<Rightarrow> js ''app'' | Some x \<Rightarrow> x)")
      case (Inl x)
      with Inr False assms show ?thesis by (simp add: refreshSession_unencodable)
    next
      case enc: (Inr enc)
      obtain r w1 where
        f: "fetch (fst (refresh_request enc (the csrf))) (snd (refresh_request enc (the csrf))) w = (r, w1)"
        by (cases "fetch (fst (refresh_request enc (the csrf))) (snd (refresh_request enc (the csrf))) w")
      from refreshSession_sent[OF Inr False enc f] assms show ?thesis by simp
    qed
  qed
qed

text \<open>
  Claim C6 says, for every cookie state, that \<open>refreshSession\<close> never throws. The
  cookie read stands before the \<open>try\<close>: on the page whose cookie string is
  \<open>authgate_csrf=%\<close> the call throws \<open>URIError\<close> instead of returning false.
\<close>

theorem refreshSession_throws_on_malformed_cookie:
  "refreshSession aud malformed = (Inl URIError, malformed)"
  by (simp add: refreshSession_thrown malformed_cookie_read malformed_def cookie_answering)

section \<open>Properties of authFetch\<close>

lemma authFetch_first_throws:
  "fetch input (withCredentials (init_or_empty init)) w = (Inl e, w1)
     \<Longrightarrow> authFetch input init opts w = (Inl e, w1)"
  by (simp add: authFetch_def)

lemma authFetch_not_401:
  "fetch input (withCredentials (init_or_empty init)) w = (Inr res, w1) \<Longrightarrow> status res \<noteq> 401
     \<Longrightarrow> authFetch input init opts w = (Inr res, w1)"
  by (simp add: authFetch_def)

lemma authFetch_refresh_throws:
  "fetch input (withCredentials (init_or_empty init)) w = (Inr res, w1) \<Longrightarrow> status res = 401
     \<Longrightarrow> refreshSession (Some (audience_or_app opts)) w1 = (Inl e, w2)
     \<Longrightarrow> authFetch input init opts w = (Inl e, w2)"
  by (simp add: authFetch_def)

lemma authFetch_refresh_false:
  "fetch input (withCredentials (init_or_empty init)) w = (Inr res, w1) \<Longrightarrow> status res = 401
     \<Longrightarrow> refreshSession (Some (audience_or_app opts)) w1 = (Inr False, w2)
     \<Longrightarrow> authFetch input init opts w = (Inr res, w2)"
  by (simp add: authFetch_def)

lemma authFetch_refresh_true:
  "fetch input (withCredentials (init_or_empty init)) w = (Inr res, w1) \<Longrightarrow> status res = 401
     \<Longrightarrow> refreshSession (Some (audience_or_app opts)) w1 = (Inr True, w2)
     \<Longrightarrow> authFetch input init opts w = fetch input (withCredentials (init_or_empty init)) w2"
  by (simp add: authFetch_def)

lemma authFetch_refreshed_calls:
  assumes first: "fetch input (withCredentials (init_or_empty init)) w = (Inr res, w1)"
    and s: "status res = 401"
    and r: "refreshSession (Some (audience_or_app opts)) w1 = (Inr True, w2)"
  shows "\<exists>csrf enc. getCSRFToken w1 = Inr (Some csrf) \<and> csrf \<noteq> [] \<and>
                  encodeURIComponent (audience_or_app opts) = Inr enc \<and>
                  calls (snd (authFetch input init opts w)) =
                    calls w @ [(input, withCredentials (init_or_empty init)),
                               refresh_request enc csrf,
                               (input, withCredentials (init_or_empty init))]"
proof -
  from first s r
  have eq: "authFetch input init opts w = fetch input (withCredentials (init_or_empty init)) w2"
    by (rule authFetch_refresh_true)
  from fetch_effect[OF first]
  have c1: "calls w1 = calls w @ [(input, withCredentials (init_or_empty init))]" by simp
  obtain r3 w3 where third: "fetch input (withCredentials (init_or_empty init)) w2 = (r3, w3)"
    by (cases "fetch input (withCredentials (init_or_empty init)) w2")
  from fetch_effect[OF third]
  have c3: "calls w3 = calls w2 @ [(input, withCredentials (init_or_empty init))]" by simp
  from refreshSession_true_sent[OF r] obtain csrf enc where
    s: "getCSRFToken w1 = Inr (Some csrf)" "csrf \<noteq> []"
       "encodeURIComponent (audience_or_app opts) = Inr enc"
       "calls w2 = calls w1 @ [refresh_request enc csrf]"
    by blast
  from s c1 c3 eq third show ?thesis by simp
qed

lemma authFetch_calls_after_401:
  assumes first: "fetch input (withCredentials (init_or_empty init)) w = (Inr res, w1)"
    and s: "status res = 401"
  shows "calls (snd (authFetch input init opts w))
           = calls w @ [(input, withCredentials (init_or_empty init))]
         \<or> (\<exists>enc csrf rest.
               encodeURIComponent (audience_or_app opts) = Inr enc \<and>
               getCSRFToken w1 = Inr (Some csrf) \<and>
               calls (snd (authFetch input init opts w))
                 = calls w @ (input, withCredentials (init_or_empty init))
                     # refresh_request enc csrf # rest)"
proof -
  from fetch_effect[OF first]
  have c1: "calls w1 = calls w @ [(input, withCredentials (init_or_empty init))]" by simp
  obtain rr w2 where r: "refreshSession (Some (audience_or_app opts)) w1 = (rr, w2)"
    by (cases "refreshSession (Some (audience_or_app opts)) w1")
  show ?thesis
  proof (cases rr)
    case (Inl e)
    with r refreshSession_throws_unchanged[of "Some (audience_or_app opts)" w1 e w2]
    have "w2 = w1" by simp
    with first s r Inl c1 show ?thesis by (simp add: authFetch_refresh_throws)
  next
    case (Inr b)
    show ?thesis
    proof (cases b)
      case False
      with r Inr have rf: "refreshSession (Some (audience_or_app opts)) w1 = (Inr False, w2)"
        by simp
      from authFetch_refresh_false[OF first s rf]
      have eq: "authFetch input init opts w = (Inr res, w2)" .
      from refreshSession_returns[OF rf] c1 eq show ?thesis by auto
    next
      case True
      with r Inr have rt: "refreshSession (Some (audience_or_app opts)) w1 = (Inr True, w2)"
        by simp
      from authFetch_refreshed_calls[OF first s rt]
      show ?thesis by auto
    qed
  qed
qed

lemma authFetch_default_audience:
  "authFetch input init None w = authFetch input init (Some \<lparr>audience = Some (js ''app'')\<rparr>) w"
proof -
  have eq: "audience_or_app None = audience_or_app (Some \<lparr>audience = Some (js ''app'')\<rparr>)"
    by (simp add: audience_or_app_def)
  show ?thesis unfolding authFetch_def eq ..
qed

text \<open>
  Claim C1, as amended. The request that \<open>authFetch\<close> issues is the caller's input
  with the caller's options (the empty options when none are given), every member as
  the caller set it but \<open>credentials\<close>, which is "include"; the refresh request is the
  POST to \<open>/auth/refresh?audience=\<close> followed by the encoded audience, with the CSRF
  header and credentials. Whenever the caller's request is answered by a response: if the status is not 401, that response is
  returned after exactly one call; if the status is 401 and \<open>refreshSession\<close> returns
  false, the original 401 response is returned, after exactly one call when
  \<open>refreshSession\<close> sent nothing (no CSRF token, an empty one, or an audience that
  cannot be URL-encoded) and after exactly two calls (original, refresh) when it sent
  its request; if the status is 401 and \<open>refreshSession\<close> returns true, the result is
  whatever the re-issued original request yields, and the calls made are exactly
  three, in the order original, refresh, original again, whatever the status of the
  retry.
\<close>

theorem authFetch_call_sequence:
  assumes first: "fetch input (withCredentials (init_or_empty init)) w = (Inr res, w1)"
  shows
    "(status res \<noteq> 401 \<longrightarrow>
        authFetch input init opts w = (Inr res, w1) \<and>
        calls w1 = calls w @ [(input, withCredentials (init_or_empty init))])
     \<and> (\<forall>w2. status res = 401 \<and>
              refreshSession (Some (audience_or_app opts)) w1 = (Inr False, w2) \<longrightarrow>
           authFetch input init opts w = (Inr res, w2) \<and>
           ((getCSRFToken w1 = Inr None \<or> getCSRFToken w1 = Inr (Some [])
             \<or> (\<exists>e. encodeURIComponent (audience_or_app opts) = Inl e)) \<and>
            calls w2 = calls w @ [(input, withCredentials (init_or_empty init))]
            \<or> (\<exists>csrf enc. getCSRFToken w1 = Inr (Some csrf) \<and> csrf \<noteq> [] \<and>
                  encodeURIComponent (audience_or_app opts) = Inr enc \<and>
                  calls w2 = calls w @ [(input, withCredentials (init_or_empty init)),
                                        refresh_request enc csrf])))
     \<and> (\<forall>w2. status res = 401 \<and>
              refreshSession (Some (audience_or_app opts)) w1 = (Inr True, w2) \<longrightarrow>
           authFetch input init opts w = fetch input (withCredentials (init_or_empty init)) w2 \<and>
           (\<exists>csrf enc. getCSRFToken w1 = Inr (Some csrf) \<and> csrf \<noteq> [] \<and>
                  encodeURIComponent (audience_or_app opts) = Inr enc \<and>
                  calls (snd (authFetch input init opts w)) =
                    calls w @ [(input, withCredentials (init_or_empty init)),
                               refresh_request enc csrf,
                               (input, withCredentials (init_or_empty init))]))
     \<and> withCredentials (init_or_empty init) =
         (case init of
            None \<Rightarrow>
              \<lparr>req_method = None, headers = None, body = None,
               credentials = Some (js ''include''), other = []\<rparr>
          | Some i \<Rightarrow>
              \<lparr>req_method = req_method i, headers = headers i, body = body i,
               credentials = Some (js ''include''), other = other i\<rparr>)
     \<and> (\<forall>enc csrf.
          refresh_request enc csrf =
            (UrlString (js ''/auth/refresh?audience='' @ enc),
             \<lparr>req_method = Some (js ''POST''),
              headers = Some [(js ''X-CSRF-Token'', csrf)],
              body = None,
              credentials = Some (js ''include''),
              other = []\<rparr>))"
proof (intro conjI impI allI)
  assume "status res \<noteq> 401"
  with first show "authFetch input init opts w = (Inr res, w1)"
    by (rule authFetch_not_401)
next
  from fetch_effect[OF first]
  show "calls w1 = calls w @ [(input, withCredentials (init_or_empty init))]" by simp
next
  fix w2
  assume a: "status res = 401 \<and> refreshSession (Some (audience_or_app opts)) w1 = (Inr False, w2)"
  with first show "authFetch input init opts w = (Inr res, w2)"
    by (simp add: authFetch_refresh_false)
next
  fix w2
  assume a: "status res = 401 \<and> refreshSession (Some (audience_or_app opts)) w1 = (Inr False, w2)"
  then have r: "refreshSession (Some (audience_or_app opts)) w1 = (Inr False, w2)" by simp
  from fetch_effect[OF first]
  have c1: "calls w1 = calls w @ [(input, withCredentials (init_or_empty init))]" by simp
  from refreshSession_returns[OF r] c1
  show "(getCSRFToken w1 = Inr None \<or> getCSRFToken w1 = Inr (Some [])
             \<or> (\<exists>e. encodeURIComponent (audience_or_app opts) = Inl e)) \<and>
            calls w2 = calls w @ [(input, withCredentials (init_or_empty init))]
            \<or> (\<exists>csrf enc. getCSRFToken w1 = Inr (Some csrf) \<and> csrf \<noteq> [] \<and>
                  encodeURIComponent (audience_or_app opts) = Inr enc \<and>
                  calls w2 = calls w @ [(input, withCredentials (init_or_empty init)),
                                        refresh_request enc csrf])"
    by auto
next
  fix w2
  assume a: "status res = 401 \<and> refreshSession (Some (audience_or_app opts)) w1 = (Inr True, w2)"
  with first show "authFetch input init opts w = fetch input (withCredentials (init_or_empty init)) w2"
    by (simp add: authFetch_refresh_true)
next
  fix w2
  assume a: "status res = 401 \<and> refreshSession (Some (audience_or_app opts)) w1 = (Inr True, w2)"
  then have s: "status res = 401"
    and r: "refreshSession (Some (audience_or_app opts)) w1 = (Inr True, w2)" by simp_all
  from authFetch_refreshed_calls[OF first s r]
  show "\<exists>csrf enc. getCSRFToken w1 = Inr (Some csrf) \<and> csrf \<noteq> [] \<and>
                  encodeURIComponent (audience_or_app opts) = Inr enc \<and>
                  calls (snd (authFetch input init opts w)) =
                    calls w @ [(input, withCredentials (init_or_empty init)),
                               refresh_request enc csrf,
                               (input, withCredentials (init_or_empty init))]" .
next
  show "withCredentials (init_or_empty init) =
         (case init of
            None \<Rightarrow>
              \<lparr>req_method = None, headers = None, body = None,
               credentials = Some (js ''include''), other = []\<rparr>
          | Some i \<Rightarrow>
              \<lparr>req_method = req_method i, headers = headers i, body = body i,
               credentials = Some (js ''include''), other = other i\<rparr>)"
    by (simp add: withCredentials_def init_or_empty_def empty_init_def split: option.splits)
next
  fix enc csrf
  show "refresh_request enc csrf =
            (UrlString (js ''/auth/refresh?audience='' @ enc),
             \<lparr>req_method = Some (js ''POST''),
              headers = Some [(js ''X-CSRF-Token'', csrf)],
              body = None,
              credentials = Some (js ''include''),
              other = []\<rparr>)"
    by (simp add: refresh_request_def)
qed

text \<open>
  The claim as first stated fails: on a page without CSRF cookie, the request is
  answered 401, \<open>refreshSession\<close> returns false, and the original 401 comes back after
  one network call, not two.
\<close>

theorem authFetch_one_call_counterexample:
  "fst (fetch api_data (withCredentials (init_or_empty None)) signed_out) = Inr (numbered 401 0)
   \<and> fst (refreshSession (Some (audience_or_app None))
            (snd (fetch api_data (withCredentials (init_or_empty None)) signed_out))) = Inr False
   \<and> fst (authFetch api_data None None signed_out) = Inr (numbered 401 0)
   \<and> length (calls (snd (authFetch api_data None None signed_out))) = 1"
  by (simp add: authFetch_def refreshSession_def cookie_eval world_eval)

theorem authFetch_call_sequence_witness:
  "fst (authFetch api_data None None healthy) = Inr (numbered 200 0)
   \<and> calls (snd (authFetch api_data None None healthy))
       = [(api_data,
           \<lparr>req_method = None, headers = None, body = None,
            credentials = Some (js ''include''), other = []\<rparr>)]
   \<and> fst (authFetch api_data (Some put_init) None rejected) = Inr (numbered 401 0)
   \<and> calls (snd (authFetch api_data (Some put_init) None rejected))
       = [(api_data,
           \<lparr>req_method = Some (js ''PUT''),
            headers = Some [(js ''Content-Type'', js ''application/json'')],
            body = Some (js ''{}''),
            credentials = Some (js ''include''),
            other = [(js ''cache'', js ''no-store'')]\<rparr>),
          (UrlString (js ''/auth/refresh?audience=app''),
           \<lparr>req_method = Some (js ''POST''),
            headers = Some [(js ''X-CSRF-Token'', js ''abc'')],
            body = None,
            credentials = Some (js ''include''),
            other = []\<rparr>)]
   \<and> fst (authFetch api_data (Some put_init) None expired) = Inr (numbered 401 2)
   \<and> calls (snd (authFetch api_data (Some put_init) None expired))
       = [(api_data,
           \<lparr>req_method = Some (js ''PUT''),
            headers = Some [(js ''Content-Type'', js ''application/json'')],
            body = Some (js ''{}''),
            credentials = Some (js ''include''),
            other = [(js ''cache'', js ''no-store'')]\<rparr>),
          (UrlString (js ''/auth/refresh?audience=app''),
           \<lparr>req_method = Some (js ''POST''),
            headers = Some [(js ''X-CSRF-Token'', js ''abc'')],
            body = None,
            credentials = Some (js ''include''),
            other = []\<rparr>),
          (api_data,
           \<lparr>req_method = Some (js ''PUT''),
            headers = Some [(js ''Content-Type'', js ''application/json'')],
            body = Some (js ''{}''),
            credentials = Some (js ''include''),
            other = [(js ''cache'', js ''no-store'')]\<rparr>)]"
proof -
  let ?req = "withCredentials (init_or_empty None)"
  let ?put = "withCredentials (init_or_empty (Some put_init))"
  have h: "fetch api_data ?req healthy = (Inr (numbered 200 0), snd (fetch api_data ?req healthy))"
    by (rule pair_of_fst) (simp add: world_eval)
  have r: "fetch api_data ?put rejected = (Inr (numbered 401 0), snd (fetch api_data ?put rejected))"
    by (rule pair_of_fst) (simp add: world_eval)
  have e: "fetch api_data ?put expired = (Inr (numbered 401 0), snd (fetch api_data ?put expired))"
    by (rule pair_of_fst) (simp add: world_eval)
  have rr: "refreshSession (Some (audience_or_app None)) (snd (fetch api_data ?put rejected))
      = (Inr False, snd (refreshSession (Some (audience_or_app None)) (snd (fetch api_data ?put rejected))))"
    by (rule pair_of_fst) (simp add: refreshSession_def cookie_eval world_eval encode_eval)
  have er: "refreshSession (Some (audience_or_app None)) (snd (fetch api_data ?put expired))
      = (Inr True, snd (refreshSession (Some (audience_or_app None)) (snd (fetch api_data ?put expired))))"
    by (rule pair_of_fst) (simp add: refreshSession_def cookie_eval world_eval encode_eval)
  have s200: "status (numbered 200 0) \<noteq> 401" and s401: "status (numbered 401 0) = 401"
    by (simp_all add: numbered_def)
  have c0: "calls healthy = []" "calls rejected = []" "calls expired = []"
    by (simp_all add: world_eval)
  have tok: "getCSRFToken (snd (fetch api_data ?put rejected)) = Inr (Some (js ''abc''))"
    "getCSRFToken (snd (fetch api_data ?put expired)) = Inr (Some (js ''abc''))"
    by (simp_all add: cookie_eval world_eval)
  have enc: "encodeURIComponent (audience_or_app None) = Inr (js ''app'')"
    by (simp add: cookie_eval world_eval encode_eval)
  have third: "fst (fetch api_data ?put
      (snd (refreshSession (Some (audience_or_app None)) (snd (fetch api_data ?put expired)))))
      = Inr (numbered 401 2)"
    by (simp add: refreshSession_def cookie_eval world_eval encode_eval)
  have ne: "js ''abc'' \<noteq> []" by (simp add: js_def)
  from authFetch_call_sequence[OF h, of None, THEN conjunct2, THEN conjunct2, THEN conjunct2,
      THEN conjunct2, rule_format, of "js ''app''" "js ''abc''"]
  have rq: "refresh_request (js ''app'') (js ''abc'')
      = (UrlString (js ''/auth/refresh?audience=app''),
         \<lparr>req_method = Some (js ''POST''),
          headers = Some [(js ''X-CSRF-Token'', js ''abc'')],
          body = None,
          credentials = Some (js ''include''),
          other = []\<rparr>)"
    by (simp add: js_def)
  from authFetch_call_sequence[OF h, of None, THEN conjunct2, THEN conjunct2, THEN conjunct2,
      THEN conjunct1]
  have W0: "?req = \<lparr>req_method = None, headers = None, body = None,
            credentials = Some (js ''include''), other = []\<rparr>"
    by simp
  from authFetch_call_sequence[OF r, of None, THEN conjunct2, THEN conjunct2, THEN conjunct2,
      THEN conjunct1]
  have W1: "?put = \<lparr>req_method = Some (js ''PUT''),
            headers = Some [(js ''Content-Type'', js ''application/json'')],
            body = Some (js ''{}''),
            credentials = Some (js ''include''),
            other = [(js ''cache'', js ''no-store'')]\<rparr>"
    by (simp add: put_init_def)
  note H = authFetch_call_sequence[OF h, of None, THEN conjunct1, rule_format, OF s200]
  from H[THEN conjunct1]
  have A1: "fst (authFetch api_data None None healthy) = Inr (numbered 200 0)" by simp
  from H[THEN conjunct2] c0
  have A2: "calls (snd (authFetch api_data None None healthy)) = [(api_data, ?req)]"
    by (simp add: H[THEN conjunct1])
  note R = authFetch_call_sequence[OF r, of None, THEN conjunct2, THEN conjunct1, rule_format,
      OF conjI[OF s401 rr]]
  from R[THEN conjunct1]
  have B1: "fst (authFetch api_data (Some put_init) None rejected) = Inr (numbered 401 0)" by simp
  from R[THEN conjunct2] c0 tok enc ne
  have B2: "calls (snd (authFetch api_data (Some put_init) None rejected))
         = [(api_data, ?put), refresh_request (js ''app'') (js ''abc'')]"
    by (simp add: R[THEN conjunct1])
  note E = authFetch_call_sequence[OF e, of None, THEN conjunct2, THEN conjunct2, THEN conjunct1,
      rule_format, OF conjI[OF s401 er]]
  from E[THEN conjunct1] third
  have C1: "fst (authFetch api_data (Some put_init) None expired) = Inr (numbered 401 2)" by simp
  from E[THEN conjunct2] c0 tok enc ne
  have C2: "calls (snd (authFetch api_data (Some put_init) None expired))
         = [(api_data, ?put), refresh_request (js ''app'') (js ''abc''), (api_data, ?put)]"
    by simp
  show ?thesis
    unfolding A1 A2 B1 B2 C1 C2 W0 W1 rq by simp
qed

lemma authFetch_sends_refresh:
  assumes first: "fetch input (withCredentials (init_or_empty init)) w = (Inr res, w1)"
    and s: "status res = 401"
    and tok: "getCSRFToken w1 = Inr (Some csrf)" and ne: "csrf \<noteq> []"
    and enc: "encodeURIComponent (audience_or_app opts) = Inr enc"
  shows "\<exists>rest. calls (snd (authFetch input init opts w))
           = calls w @ (input, withCredentials (init_or_empty init)) # refresh_request enc csrf # rest"
proof -
  from fetch_effect[OF first]
  have c1: "calls w1 = calls w @ [(input, withCredentials (init_or_empty init))]" by simp
  have nf: "\<not> falsy (Some csrf)" using ne by (simp add: falsy_def)
  obtain r w2 where
    f: "fetch (fst (refresh_request enc csrf)) (snd (refresh_request enc csrf)) w1 = (r, w2)"
    by (cases "fetch (fst (refresh_request enc csrf)) (snd (refresh_request enc csrf)) w1")
  from fetch_effect[OF f] have c2: "calls w2 = calls w1 @ [refresh_request enc csrf]" by simp
  from refreshSession_sent[OF tok nf, of "Some (audience_or_app opts)" enc r w2] enc f
  have rs: "refreshSession (Some (audience_or_app opts)) w1
              = (Inr (case r of Inl e \<Rightarrow> False | Inr res \<Rightarrow> ok res), w2)"
    by simp
  show ?thesis
  proof (cases "case r of Inl e \<Rightarrow> False | Inr res \<Rightarrow> ok res")
    case False
    with rs have "refreshSession (Some (audience_or_app opts)) w1 = (Inr False, w2)" by simp
    from authFetch_refresh_false[OF first s this] c1 c2 show ?thesis by simp
  next
    case True
    with rs have rt: "refreshSession (Some (audience_or_app opts)) w1 = (Inr True, w2)" by simp
    from authFetch_refreshed_calls[OF first s rt] tok enc show ?thesis by auto
  qed
qed

text \<open>
  Claim C2: when the first response is 401 and \<open>authFetch\<close> makes a second call, that
  call is the refresh request: POST to \<open>/auth/refresh?audience=\<close> followed by the
  URL-encoded audience, with the CSRF header and credentials; the audience is the one
  supplied in the options, and "app" when \<open>authFetch\<close> or \<open>refreshSession\<close> is given
  none.
\<close>

theorem authFetch_refresh_audience:
  "(\<forall>res w1 c1 c2 rest.
       fetch input (withCredentials (init_or_empty init)) w = (Inr res, w1) \<and>
       status res = 401 \<and>
       calls (snd (authFetch input init opts w)) = calls w @ c1 # c2 # rest \<longrightarrow>
       (\<exists>enc csrf.
          encodeURIComponent (audience_or_app opts) = Inr enc \<and>
          c2 = (UrlString (js ''/auth/refresh?audience='' @ enc),
                \<lparr>req_method = Some (js ''POST''),
                 headers = Some [(js ''X-CSRF-Token'', csrf)],
                 body = None,
                 credentials = Some (js ''include''),
                 other = []\<rparr>)))
   \<and> (\<forall>res w1 csrf enc.
         fetch input (withCredentials (init_or_empty init)) w = (Inr res, w1) \<and>
         status res = 401 \<and>
         getCSRFToken w1 = Inr (Some csrf) \<and> csrf \<noteq> [] \<and>
         encodeURIComponent (audience_or_app opts) = Inr enc \<longrightarrow>
         (\<exists>rest. calls (snd (authFetch input init opts w))
            = calls w @ (input, withCredentials (init_or_empty init))
                # (UrlString (js ''/auth/refresh?audience='' @ enc),
                   \<lparr>req_method = Some (js ''POST''),
                    headers = Some [(js ''X-CSRF-Token'', csrf)],
                    body = None,
                    credentials = Some (js ''include''),
                    other = []\<rparr>) # rest))
   \<and> audience_or_app (Some \<lparr>audience = Some a\<rparr>) = a
   \<and> audience_or_app (Some \<lparr>audience = None\<rparr>) = js ''app''
   \<and> audience_or_app None = js ''app''
   \<and> authFetch input init None w
       = authFetch input init (Some \<lparr>audience = Some (js ''app'')\<rparr>) w
   \<and> refreshSession None w = refreshSession (Some (js ''app'')) w"
proof (intro conjI allI impI)
  fix res w1 c1 c2 rest
  assume a: "fetch input (withCredentials (init_or_empty init)) w = (Inr res, w1) \<and>
       status res = 401 \<and>
       calls (snd (authFetch input init opts w)) = calls w @ c1 # c2 # rest"
  then have first: "fetch input (withCredentials (init_or_empty init)) w = (Inr res, w1)"
    and s: "status res = 401"
    and c: "calls (snd (authFetch input init opts w)) = calls w @ c1 # c2 # rest"
    by simp_all
  from authFetch_calls_after_401[OF first s, of opts] c
  obtain enc csrf where "encodeURIComponent (audience_or_app opts) = Inr enc"
    and "c2 = refresh_request enc csrf"
    by auto
  then show "\<exists>enc csrf.
          encodeURIComponent (audience_or_app opts) = Inr enc \<and>
          c2 = (UrlString (js ''/auth/refresh?audience='' @ enc),
                \<lparr>req_method = Some (js ''POST''),
                 headers = Some [(js ''X-CSRF-Token'', csrf)],
                 body = None,
                 credentials = Some (js ''include''),
                 other = []\<rparr>)"
    by (auto simp: refresh_request_def)
next
  fix res w1 csrf enc
  assume a: "fetch input (withCredentials (init_or_empty init)) w = (Inr res, w1) \<and>
         status res = 401 \<and>
         getCSRFToken w1 = Inr (Some csrf) \<and> csrf \<noteq> [] \<and>
         encodeURIComponent (audience_or_app opts) = Inr enc"
  then have first: "fetch input (withCredentials (init_or_empty init)) w = (Inr res, w1)"
    and s: "status res = 401"
    and tok: "getCSRFToken w1 = Inr (Some csrf)" and ne: "csrf \<noteq> []"
    and enc: "encodeURIComponent (audience_or_app opts) = Inr enc"
    by simp_all
  from authFetch_sends_refresh[OF first s tok ne enc]
  show "\<exists>rest. calls (snd (authFetch input init opts w))
            = calls w @ (input, withCredentials (init_or_empty init))
                # (UrlString (js ''/auth/refresh?audience='' @ enc),
                   \<lparr>req_method = Some (js ''POST''),
                    headers = Some [(js ''X-CSRF-Token'', csrf)],
                    body = None,
                    credentials = Some (js ''include''),
                    other = []\<rparr>) # rest"
    by (simp add: refresh_request_def)
qed (simp_all add: audience_or_app_def authFetch_default_audience refreshSession_default)

theorem authFetch_refresh_audience_witness:
  "(\<exists>csrf. calls (snd (authFetch admin_users (Some empty_init)
                         (Some \<lparr>audience = Some (js ''admin'')\<rparr>) expired)) ! 1
       = (UrlString (js ''/auth/refresh?audience=admin''),
          \<lparr>req_method = Some (js ''POST''),
           headers = Some [(js ''X-CSRF-Token'', csrf)],
           body = None,
           credentials = Some (js ''include''),
           other = []\<rparr>))
   \<and> (\<exists>csrf. calls (snd (authFetch admin_users (Some empty_init)
                         (Some \<lparr>audience = Some (js ''a&b'')\<rparr>) expired)) ! 1
       = (UrlString (js ''/auth/refresh?audience=a%26b''),
          \<lparr>req_method = Some (js ''POST''),
           headers = Some [(js ''X-CSRF-Token'', csrf)],
           body = None,
           credentials = Some (js ''include''),
           other = []\<rparr>))"
proof -
  let ?adm = "Some \<lparr>audience = Some (js ''admin'')\<rparr>"
  let ?amp = "Some \<lparr>audience = Some (js ''a&b'')\<rparr>"
  let ?req = "withCredentials (init_or_empty (Some empty_init))"
  have f: "fetch admin_users ?req expired = (Inr (numbered 401 0), snd (fetch admin_users ?req expired))"
    by (rule pair_of_fst) (simp add: world_eval)
  have s: "status (numbered 401 0) = 401" by (simp add: numbered_def)
  have l1: "calls (snd (authFetch admin_users (Some empty_init) ?adm expired))
      = calls expired @ (admin_users, ?req)
          # (calls (snd (authFetch admin_users (Some empty_init) ?adm expired)) ! 1)
          # [(admin_users, ?req)]"
    by (simp add: authFetch_def refreshSession_def cookie_eval world_eval encode_eval)
  have l2: "calls (snd (authFetch admin_users (Some empty_init) ?amp expired))
      = calls expired @ (admin_users, ?req)
          # (calls (snd (authFetch admin_users (Some empty_init) ?amp expired)) ! 1)
          # [(admin_users, ?req)]"
    by (simp add: authFetch_def refreshSession_def cookie_eval world_eval encode_eval)
  have e1: "encodeURIComponent (audience_or_app ?adm) = Inr (js ''admin'')"
    by (simp add: audience_or_app_def cookie_eval encode_eval)
  have e2: "encodeURIComponent (audience_or_app ?amp) = Inr (js ''a%26b'')"
    by (simp add: audience_or_app_def cookie_eval encode_eval)
  from authFetch_refresh_audience[of admin_users "Some empty_init" expired ?adm, THEN conjunct1,
      rule_format, OF conjI[OF f conjI[OF s l1]]] e1
  have A: "\<exists>csrf. calls (snd (authFetch admin_users (Some empty_init) ?adm expired)) ! 1
       = (UrlString (js ''/auth/refresh?audience=admin''),
          \<lparr>req_method = Some (js ''POST''),
           headers = Some [(js ''X-CSRF-Token'', csrf)],
           body = None,
           credentials = Some (js ''include''),
           other = []\<rparr>)"
    by (auto simp: js_def)
  from authFetch_refresh_audience[of admin_users "Some empty_init" expired ?amp, THEN conjunct1,
      rule_format, OF conjI[OF f conjI[OF s l2]]] e2
  have C: "\<exists>csrf. calls (snd (authFetch admin_users (Some empty_init) ?amp expired)) ! 1
       = (UrlString (js ''/auth/refresh?audience=a%26b''),
          \<lparr>req_method = Some (js ''POST''),
           headers = Some [(js ''X-CSRF-Token'', csrf)],
           body = None,
           credentials = Some (js ''include''),
           other = []\<rparr>)"
    by (auto simp: js_def)
  show ?thesis by (intro conjI A C)
qed

text \<open>What \<open>authFetch\<close> absorbs, and what it lets through, wherever the cookie read returns.\<close>

lemma authFetch_absorbs_missing_token:
  assumes "fetch input (withCredentials (init_or_empty init)) w = (Inr res, w1)"
    and "status res = 401" and "getCSRFToken w1 = Inr csrf" and "falsy csrf"
  shows "authFetch input init opts w = (Inr res, w1)"
  using assms by (simp add: authFetch_refresh_false refreshSession_no_token)

lemma authFetch_retry_throws:
  assumes "fetch input (withCredentials (init_or_empty init)) w = (Inr res, w1)"
    and "status res = 401"
    and "refreshSession (Some (audience_or_app opts)) w1 = (Inr True, w2)"
    and "fetch input (withCredentials (init_or_empty init)) w2 = (Inl e, w3)"
  shows "authFetch input init opts w = (Inl e, w3)"
  using assms by (simp add: authFetch_refresh_true)

text \<open>
  Claim C3 says that \<open>authFetch\<close> never throws for an authentication failure and
  that CSRF and refresh failures come back as the original 401. A missing token and a
  refresh that returns false are absorbed, and exceptions of the two calls of the
  request propagate, as the lemmas above show; but on the page whose cookie string is
  \<open>authgate_csrf=%\<close>, the request is answered 401 without any exception, and
  \<open>authFetch\<close> throws the \<open>URIError\<close> of the cookie read after that single call.
\<close>

theorem authFetch_throws_on_malformed_cookie:
  "fst (fetch api_data (withCredentials (init_or_empty None)) malformed) = Inr (numbered 401 0)
   \<and> fst (authFetch api_data None None malformed) = Inl URIError
   \<and> calls (snd (authFetch api_data None None malformed))
       = [(api_data, withCredentials (init_or_empty None))]"
  by (simp add: authFetch_def refreshSession_def cookie_eval world_eval)

section \<open>Properties of getCurrentUser\<close>

lemma getCurrentUser_thrown:
  "identity_call opts w = (Inl e, w1) \<Longrightarrow> getCurrentUser opts w = (Inr JNull, w1)"
  by (simp add: getCurrentUser_def)

lemma getCurrentUser_not_ok:
  "identity_call opts w = (Inr res, w1) \<Longrightarrow> \<not> ok res \<Longrightarrow> getCurrentUser opts w = (Inr JNull, w1)"
  by (simp add: getCurrentUser_def)

lemma getCurrentUser_unparsable:
  "identity_call opts w = (Inr res, w1) \<Longrightarrow> ok res \<Longrightarrow> json res = Inl e
     \<Longrightarrow> getCurrentUser opts w = (Inr JNull, w1)"
  by (simp add: getCurrentUser_def)

lemma getCurrentUser_parsed:
  "identity_call opts w = (Inr res, w1) \<Longrightarrow> ok res \<Longrightarrow> json res = Inr v
     \<Longrightarrow> getCurrentUser opts w = (Inr v, w1)"
  by (simp add: getCurrentUser_def)

lemma getCurrentUser_value:
  "fst (getCurrentUser opts w) =
     Inr (case fst (identity_call opts w) of
            Inl e \<Rightarrow> JNull
          | Inr res \<Rightarrow> if ok res then (case json res of Inl e \<Rightarrow> JNull | Inr v \<Rightarrow> v) else JNull)"
proof -
  obtain r w1 where c: "identity_call opts w = (r, w1)" by (cases "identity_call opts w")
  show ?thesis
  proof (cases r)
    case (Inl e)
    with c show ?thesis by (simp add: getCurrentUser_thrown)
  next
    case (Inr res)
    show ?thesis
    proof (cases "ok res")
      case False
      with c Inr show ?thesis by (simp add: getCurrentUser_not_ok)
    next
      case True
      with c Inr show ?thesis
        by (cases "json res") (simp_all add: getCurrentUser_unparsable getCurrentUser_parsed)
    qed
  qed
qed

text \<open>
  Claim C9: \<open>getCurrentUser\<close> always returns a value and never throws; it returns null
  when the underlying call of \<open>authFetch\<close> throws, when it returns a non-success
  status, and when it returns a success status with a body that does not parse; a
  value other than null is returned only for a success status with a parsed body.
\<close>

theorem getCurrentUser_absorbs_failures:
  "(\<exists>v. fst (getCurrentUser opts w) = Inr v)
   \<and> (\<forall>e. fst (identity_call opts w) = Inl e \<longrightarrow> fst (getCurrentUser opts w) = Inr JNull)
   \<and> (\<forall>res. fst (identity_call opts w) = Inr res \<and> \<not> ok res \<longrightarrow>
          fst (getCurrentUser opts w) = Inr JNull)
   \<and> (\<forall>res e. fst (identity_call opts w) = Inr res \<and> ok res \<and> json res = Inl e \<longrightarrow>
          fst (getCurrentUser opts w) = Inr JNull)
   \<and> (\<forall>v. fst (getCurrentUser opts w) = Inr v \<and> v \<noteq> JNull \<longrightarrow>
          (\<exists>res. fst (identity_call opts w) = Inr res \<and> ok res \<and> json res = Inr v))"
  by (auto simp: getCurrentUser_value split: sum.splits if_splits)

theorem getCurrentUser_absorbs_failures_witness:
  "fst (getCurrentUser None offline) = Inr JNull
   \<and> fst (getCurrentUser None server_error) = Inr JNull
   \<and> fst (getCurrentUser None rejected) = Inr JNull
   \<and> fst (getCurrentUser None garbled) = Inr JNull
   \<and> (\<exists>res. fst (identity_call None only_id) = Inr res \<and> ok res \<and>
          json res = Inr (JObject [(js ''id'', JString (js ''u1''))]))"
proof -
  have a: "fst (identity_call None offline) = Inl (Thrown 0)"
    by (simp add: call_eval cookie_eval world_eval user_eval)
  have b: "fst (identity_call None server_error) = Inr (numbered 500 0) \<and> \<not> ok (numbered 500 0)"
    by (simp add: call_eval cookie_eval world_eval user_eval)
  have c: "fst (identity_call None rejected) = Inr (numbered 401 0) \<and> \<not> ok (numbered 401 0)"
    by (simp add: call_eval cookie_eval world_eval user_eval encode_eval)
  have d: "fst (identity_call None garbled) = Inr \<lparr>status = 200, json = Inl (Thrown 1)\<rparr>
           \<and> ok \<lparr>status = 200, json = Inl (Thrown 1)\<rparr>
           \<and> json \<lparr>status = 200, json = Inl (Thrown 1)\<rparr> = Inl (Thrown 1)"
    by (simp add: call_eval cookie_eval world_eval user_eval)
  have e: "fst (getCurrentUser None only_id) = Inr (JObject [(js ''id'', JString (js ''u1''))])
           \<and> JObject [(js ''id'', JString (js ''u1''))] \<noteq> JNull"
    by (simp add: getCurrentUser_def call_eval cookie_eval world_eval user_eval)
  from getCurrentUser_absorbs_failures[of None offline, THEN conjunct2, THEN conjunct1,
      rule_format, OF a]
  have A: "fst (getCurrentUser None offline) = Inr JNull" .
  from getCurrentUser_absorbs_failures[of None server_error, THEN conjunct2, THEN conjunct2,
      THEN conjunct1, rule_format, OF b]
  have B: "fst (getCurrentUser None server_error) = Inr JNull" .
  from getCurrentUser_absorbs_failures[of None rejected, THEN conjunct2, THEN conjunct2,
      THEN conjunct1, rule_format, OF c]
  have C: "fst (getCurrentUser None rejected) = Inr JNull" .
  from getCurrentUser_absorbs_failures[of None garbled, THEN conjunct2, THEN conjunct2,
      THEN conjunct2, THEN conjunct1, rule_format, OF d]
  have D: "fst (getCurrentUser None garbled) = Inr JNull" .
  from getCurrentUser_absorbs_failures[of None only_id, THEN conjunct2, THEN conjunct2,
      THEN conjunct2, THEN conjunct2, rule_format, OF e]
  have E: "\<exists>res. fst (identity_call None only_id) = Inr res \<and> ok res \<and>
          json res = Inr (JObject [(js ''id'', JString (js ''u1''))])" .
  show ?thesis by (intro conjI A B C D E)
qed

text \<open>
  Claim C10: for a success status whose body parses, the parsed value is returned as
  it is, whatever its shape; the body \<open>null\<close> gives null, the value of every failure.
\<close>

theorem getCurrentUser_returns_parsed_body:
  assumes "fst (identity_call opts w) = Inr res" and "ok res" and "json res = Inr v"
  shows "fst (getCurrentUser opts w) = Inr v"
  using assms by (simp add: getCurrentUser_value)

theorem getCurrentUser_returns_parsed_body_witness:
  "fst (getCurrentUser None null_body) = Inr JNull
   \<and> fst (getCurrentUser None server_error) = Inr JNull
   \<and> fst (getCurrentUser None healthy) = Inr (JNumber 0)
   \<and> fst (getCurrentUser None only_id) = Inr (JObject [(js ''id'', JString (js ''u1''))])"
proof -
  have a: "fst (identity_call None null_body) = Inr \<lparr>status = 200, json = Inr JNull\<rparr>"
    by (simp add: call_eval cookie_eval world_eval user_eval)
  have b: "fst (identity_call None healthy) = Inr (numbered 200 0)"
    by (simp add: call_eval cookie_eval world_eval user_eval)
  have c: "fst (identity_call None only_id)
       = Inr \<lparr>status = 200, json = Inr (JObject [(js ''id'', JString (js ''u1''))])\<rparr>"
    by (simp add: call_eval cookie_eval world_eval user_eval)
  have A: "fst (getCurrentUser None null_body) = Inr JNull"
    by (rule getCurrentUser_returns_parsed_body[OF a]) (simp_all add: ok_def)
  have B: "fst (getCurrentUser None server_error) = Inr JNull"
    by (simp add: getCurrentUser_def call_eval cookie_eval world_eval user_eval)
  have C: "fst (getCurrentUser None healthy) = Inr (JNumber 0)"
    by (rule getCurrentUser_returns_parsed_body[OF b]) (simp_all add: ok_def numbered_def)
  have D: "fst (getCurrentUser None only_id) = Inr (JObject [(js ''id'', JString (js ''u1''))])"
    by (rule getCurrentUser_returns_parsed_body[OF c]) (simp_all add: ok_def)
  show ?thesis by (intro conjI A B C D)
qed

end
